theory Spec2Isabelle
  imports Complex_Main "HOL-Library.Log_Nat" "HOL-Library.Signed_Division"
    "HOL-Library.Multiset"
begin

section \<open>JavaScript numbers\<close>

text \<open>
  A JavaScript number is an IEEE 754 binary64 value. The finite ones are modelled by the
  rational they denote (the sign of zero is not kept: no operation of this program
  observes it), next to the two infinities and NaN. Counters, array lengths and indices
  are integers far below \<open>2^53\<close>, which numbers hold exactly: they are modelled by
  \<open>nat\<close> and \<open>int\<close>.
\<close>

datatype number = Fin rat | PosInf | NegInf | NaN

text \<open>
  \<open>expo x\<close> is the binary exponent of a positive rational: \<open>2 powi expo x \<le> x < 2 powi
  (expo x + 1)\<close>. It is computed from the bit lengths of numerator and denominator.
\<close>

definition expo :: "rat \<Rightarrow> int" where
  "expo x = (case quotient_of x of (p, q) \<Rightarrow>
     let d = bitlen p - bitlen q in if 2 powi d \<le> x then d else d - 1)"

text \<open>Rounding to the nearest integer, a tie going to the even one.\<close>

definition round_even :: "rat \<Rightarrow> int" where
  "round_even m = (let f = \<lfloor>m\<rfloor>; d = m - of_int f in
     if d < 1/2 then f else if 1/2 < d then f + 1 else if even f then f else f + 1)"

text \<open>
  The spacing of binary64 values around a positive \<open>x\<close>: 53 significant bits, and the
  fixed spacing \<open>2 powi - 1074\<close> of the subnormal range below \<open>2 powi - 1022\<close>.
\<close>

definition ulp :: "rat \<Rightarrow> rat" where
  "ulp x = 2 powi (max (expo x) (- 1022) - 52)"

text \<open>
  \<open>fl x\<close> rounds a rational to the nearest binary64 value, ties to even, with the
  exponent unbounded above; \<open>to_number\<close> adds the overflow to an infinity, so that
  \<open>to_number (fl x)\<close> is the result of an IEEE operation whose exact result is \<open>x\<close>.
\<close>

definition fl_pos :: "rat \<Rightarrow> rat" where
  "fl_pos x = of_int (round_even (x / ulp x)) * ulp x"

definition fl :: "rat \<Rightarrow> rat" where
  "fl x = (if x = 0 then 0 else if 0 < x then fl_pos x else - fl_pos (- x))"

definition to_number :: "rat \<Rightarrow> number" where
  "to_number y = (if 2 powi 1024 \<le> y then PosInf
                  else if y \<le> - (2 powi 1024) then NegInf else Fin y)"

definition sign_of :: "number \<Rightarrow> int" where
  "sign_of a =
     (case a of
        Fin x \<Rightarrow> (if x = 0 then 0 else if 0 < x then 1 else - 1)
      | PosInf \<Rightarrow> 1
      | NegInf \<Rightarrow> - 1
      | NaN \<Rightarrow> 0)"

definition signed_inf :: "int \<Rightarrow> number" where
  "signed_inf k = (if k = 0 then NaN else if 0 < k then PosInf else NegInf)"

text \<open>The operators \<^verbatim>\<open>*\<close> and \<^verbatim>\<open>/\<close> on numbers.\<close>

definition js_mul :: "number \<Rightarrow> number \<Rightarrow> number" where
  "js_mul a b =
     (case (a, b) of
        (Fin x, Fin y) \<Rightarrow> to_number (fl (x * y))
      | (NaN, _) \<Rightarrow> NaN
      | (_, NaN) \<Rightarrow> NaN
      | _ \<Rightarrow> signed_inf (sign_of a * sign_of b))"

definition js_div :: "number \<Rightarrow> number \<Rightarrow> number" where
  "js_div a b =
     (case (a, b) of
        (Fin x, Fin y) \<Rightarrow> (if y = 0 then signed_inf (sign_of a) else to_number (fl (x / y)))
      | (NaN, _) \<Rightarrow> NaN
      | (_, NaN) \<Rightarrow> NaN
      | (Fin x, _) \<Rightarrow> Fin 0
      | (_, Fin y) \<Rightarrow> signed_inf (sign_of a * (if y < 0 then - 1 else 1))
      | _ \<Rightarrow> NaN)"

text \<open>The comparison \<^verbatim>\<open>a > b\<close>: false as soon as one side is NaN.\<close>

definition js_gt :: "number \<Rightarrow> number \<Rightarrow> bool" where
  "js_gt a b =
     (case (a, b) of
        (Fin x, Fin y) \<Rightarrow> y < x
      | (PosInf, Fin y) \<Rightarrow> True
      | (PosInf, NegInf) \<Rightarrow> True
      | (Fin x, NegInf) \<Rightarrow> True
      | _ \<Rightarrow> False)"

text \<open>\<^verbatim>\<open>Math.floor\<close>, and \<^verbatim>\<open>Number(b)\<close> for a BigInt \<open>b\<close>.\<close>

definition js_floor :: "number \<Rightarrow> number" where
  "js_floor a = (case a of Fin x \<Rightarrow> Fin (of_int \<lfloor>x\<rfloor>) | _ \<Rightarrow> a)"

definition Number_of_BigInt :: "int \<Rightarrow> number" where
  "Number_of_BigInt b = to_number (fl (of_int b))"

text \<open>
  \<^verbatim>\<open>Math.random()\<close> returns a binary64 value in \<open>[0, 1)\<close>. The random source of an
  operation is the sequence of these values, in the order the operation draws them.
\<close>

definition is_random :: "rat \<Rightarrow> bool" where
  "is_random r \<longleftrightarrow> 0 \<le> r \<and> r < 1 \<and> fl r = r"

text \<open>
  \<^verbatim>\<open>Math.floor(Math.random() * n)\<close> for a count \<open>n\<close>, as an index. The product is far
  below the overflow threshold.
\<close>

definition random_index :: "rat \<Rightarrow> nat \<Rightarrow> nat" where
  "random_index r n = nat \<lfloor>fl (r * of_nat n)\<rfloor>"

section \<open>Rendering of numbers\<close>

text \<open>
  Template literals such as \<^verbatim>\<open>`${this.consecutiveFailures} consecutive failures`\<close> render a
  non-negative integer in decimal, without leading zeros.
\<close>

fun show_nat :: "nat \<Rightarrow> string" where
  "show_nat n =
     (if n < 10 then [''0123456789'' ! n]
      else show_nat (n div 10) @ [''0123456789'' ! (n mod 10)])"

declare show_nat.simps [simp del]

text \<open>
  \<^verbatim>\<open>Number.prototype.toString\<close> for an integral binary64 value \<open>X \<ge> 10^21\<close>, which
  \<^verbatim>\<open>toFixed\<close> falls back to: exponential notation with the fewest digits \<open>s\<close> (\<open>k\<close> of
  them) such that \<open>s * 10^(n - k)\<close> rounds to \<open>X\<close>, the closest such \<open>s\<close> being taken.
\<close>

function digits10 :: "int \<Rightarrow> nat" where
  "digits10 X = (if X < 10 then 1 else Suc (digits10 (X div 10)))"
  by pat_completeness auto
termination
  by (relation "measure nat") auto

declare digits10.simps [simp del]

definition sci_candidates :: "int \<Rightarrow> (nat \<times> nat \<times> int) list" where
  "sci_candidates X =
     (let d = digits10 X in
      concat (map (\<lambda>k. concat (map (\<lambda>n. concat (map (\<lambda>s.
          if 10 ^ (k - 1) \<le> s \<and> s < 10 ^ k \<and> fl (of_int (s * 10 ^ (n - k))) = of_int X
          then [(k, n, s)] else [])
        [X div 10 ^ (n - k), X div 10 ^ (n - k) + 1])) [d, d + 1])) [1..<18]))"

definition sci_closer ::
  "int \<Rightarrow> nat \<times> nat \<times> int \<Rightarrow> nat \<times> nat \<times> int \<Rightarrow> nat \<times> nat \<times> int" where
  "sci_closer X c best =
     (case (c, best) of ((k, n, s), (k', n', s')) \<Rightarrow>
        let e = \<bar>s * 10 ^ (n - k) - X\<bar>; e' = \<bar>s' * 10 ^ (n' - k') - X\<bar>
        in if k = k' \<and> (e < e' \<or> (e = e' \<and> even s)) then c else best)"

definition toString_large :: "int \<Rightarrow> string" where
  "toString_large X =
     (case sci_candidates X of
        [] \<Rightarrow> show_nat (nat X)
      | c # cs \<Rightarrow>
          (case fold (sci_closer X) cs c of (k, n, s) \<Rightarrow>
             (if k = 1 then show_nat (nat s)
              else hd (show_nat (nat s)) # ''.'' @ tl (show_nat (nat s)))
             @ ''e+'' @ show_nat (n - 1)))"

text \<open>
  \<^verbatim>\<open>x.toFixed(1)\<close>: a non-finite number prints its name; otherwise the sign, then, below
  \<open>10^21\<close>, the integer \<open>n\<close> with \<open>n / 10\<close> nearest to \<open>\<bar>x\<bar>\<close> (the larger one on a tie),
  written with one digit after the point.
\<close>

definition toFixed1 :: "number \<Rightarrow> string" where
  "toFixed1 a =
     (case a of
        NaN \<Rightarrow> ''NaN''
      | PosInf \<Rightarrow> ''Infinity''
      | NegInf \<Rightarrow> ''-Infinity''
      | Fin x \<Rightarrow>
          (if x < 0 then ''-'' else []) @
          (if 10 ^ 21 \<le> \<bar>x\<bar> then toString_large \<lfloor>\<bar>x\<bar>\<rfloor>
           else let n = \<lfloor>\<bar>x\<bar> * 10 + 1/2\<rfloor>
                in show_nat (nat (n div 10)) @ ''.'' @ show_nat (nat (n mod 10))))"

section \<open>Configuration, constants and collaborators\<close>

text \<open>
  The fields of the configuration object (\<^verbatim>\<open>ConfigManager\<close>) that the two classes read.
  Window, limits and sizes are counts; \<open>fundAmountLamports\<close> is the integer
  \<^verbatim>\<open>Math.floor(config.fundAmount * LAMPORTS_PER_SOL)\<close> that line 171 of WalletManager.js turns
  into a big number.
\<close>

record config =
  enableCircuitBreaker :: bool
  failureRateWindow :: nat
  maxConsecutiveFailures :: nat
  maxFailureRate :: number
  emergencyStopLoss :: number
  numWalletsToGenerate :: nat
  fundAmountLamports :: int
  minWalletCooldownMs :: rat
  maxWalletCooldownMs :: rat
  autoScale :: bool
  concurrency :: nat
  batchSize :: nat
  sinkPrivateKey :: "nat list option"
  relayerPrivateKeys :: "nat list list"

text \<open>
  The values imported from \<^verbatim>\<open>constants.js\<close>, which is not part of the sources at hand: they
  are parameters of the model.
\<close>

record constants =
  SINK_BALANCE_CHECK_INTERVAL :: nat
  MIN_SOL_BUFFER_LAMPORTS_BN :: nat
  PERSONALITIES :: "string list"

datatype error = StoreError | KeyError | NetworkError

section \<open>src/safety/CircuitBreaker.js\<close>

record circuit_breaker =
  config :: config
  consecutiveFailures :: nat
  recentTrades :: "bool list"
  initialSinkBalance :: int
  checkCounter :: nat

record check_result =
  tripped :: bool
  reason :: string

text \<open>The constructor (lines 11-18).\<close>

definition new_CircuitBreaker :: "config \<Rightarrow> circuit_breaker" where
  "new_CircuitBreaker c =
     \<lparr>config = c, consecutiveFailures = 0, recentTrades = [],
      initialSinkBalance = 0, checkCounter = 0\<rparr>"

text \<open>
  \<^verbatim>\<open>recordTradeResult(success)\<close> (lines 24-37): \<^verbatim>\<open>push\<close> appends at the end,
  \<^verbatim>\<open>shift\<close> removes the first element.
\<close>

definition recordTradeResult :: "circuit_breaker \<Rightarrow> bool \<Rightarrow> circuit_breaker" where
  "recordTradeResult s success =
     (if \<not> enableCircuitBreaker (config s) then s
      else
        let pushed = recentTrades s @ [success];
            kept = (if failureRateWindow (config s) < length pushed then tl pushed else pushed)
        in s\<lparr>recentTrades := kept,
              consecutiveFailures := (if success then 0 else consecutiveFailures s + 1)\<rparr>)"

definition not_tripped :: check_result where
  "not_tripped = \<lparr>tripped = False, reason = []\<rparr>"

text \<open>\<^verbatim>\<open>checkConsecutiveFailures()\<close> (lines 68-76).\<close>

definition checkConsecutiveFailures :: "circuit_breaker \<Rightarrow> check_result" where
  "checkConsecutiveFailures s =
     (if maxConsecutiveFailures (config s) \<le> consecutiveFailures s
      then \<lparr>tripped = True,
            reason = ''Circuit Breaker: '' @ show_nat (consecutiveFailures s)
                       @ '' consecutive failures''\<rparr>
      else not_tripped)"

text \<open>
  \<^verbatim>\<open>checkFailureRate()\<close> (lines 82-95). The rate is the quotient of two array lengths,
  as a number: NaN for an empty buffer.
\<close>

definition checkFailureRate :: "circuit_breaker \<Rightarrow> check_result" where
  "checkFailureRate s =
     (if failureRateWindow (config s) \<le> length (recentTrades s) then
        let failures = length (filter (\<lambda>r. \<not> r) (recentTrades s));
            failureRate = js_div (Fin (of_nat failures)) (Fin (of_nat (length (recentTrades s))))
        in if js_gt failureRate (maxFailureRate (config s))
           then \<lparr>tripped = True,
                 reason = ''Circuit Breaker: '' @ toFixed1 (js_mul failureRate (Fin 100))
                            @ ''% failure rate (last ''
                            @ show_nat (failureRateWindow (config s)) @ '' trades)''\<rparr>
           else not_tripped
      else not_tripped)"

text \<open>
  \<^verbatim>\<open>checkEmergencyStopLoss(connection, sinkKeypair)\<close> (lines 103-118). \<open>reply\<close> is the
  answer of \<^verbatim>\<open>connection.getBalance\<close>, \<open>None\<close> when the call throws; the counter is
  incremented before anything can fail. A remainder by zero is NaN, which is not \<open>0\<close>.
\<close>

definition checkEmergencyStopLoss ::
  "constants \<Rightarrow> nat option \<Rightarrow> string option \<Rightarrow> circuit_breaker
     \<Rightarrow> circuit_breaker \<times> (error + check_result)" where
  "checkEmergencyStopLoss K reply sinkKeypair s =
     (let s1 = s\<lparr>checkCounter := checkCounter s + 1\<rparr> in
      if sinkKeypair \<noteq> None \<and> 0 < initialSinkBalance s
         \<and> SINK_BALANCE_CHECK_INTERVAL K \<noteq> 0
         \<and> checkCounter s1 mod SINK_BALANCE_CHECK_INTERVAL K = 0
      then
        (case reply of
           None \<Rightarrow> (s1, Inl NetworkError)
         | Some currentBalance \<Rightarrow>
             let lossDecimal =
                   js_div (Number_of_BigInt (initialSinkBalance s - int currentBalance))
                          (Number_of_BigInt (initialSinkBalance s))
             in if js_gt lossDecimal (emergencyStopLoss (config s))
                then (s1, Inr \<lparr>tripped = True,
                        reason = ''Circuit Breaker: '' @ toFixed1 (js_mul lossDecimal (Fin 100))
                                   @ ''% loss from initial balance''\<rparr>)
                else (s1, Inr not_tripped))
      else (s1, Inr not_tripped))"

text \<open>
  \<^verbatim>\<open>checkCircuitBreakers(connection, sinkKeypair)\<close> (lines 45-62): the three checks in
  order, the first tripped result returned.
\<close>

definition checkCircuitBreakers ::
  "constants \<Rightarrow> nat option \<Rightarrow> string option \<Rightarrow> circuit_breaker
     \<Rightarrow> circuit_breaker \<times> (error + check_result)" where
  "checkCircuitBreakers K reply sinkKeypair s =
     (if \<not> enableCircuitBreaker (config s) then (s, Inr not_tripped)
      else if tripped (checkConsecutiveFailures s) then (s, Inr (checkConsecutiveFailures s))
      else if tripped (checkFailureRate s) then (s, Inr (checkFailureRate s))
      else
        (case checkEmergencyStopLoss K reply sinkKeypair s of
           (s1, Inl e) \<Rightarrow> (s1, Inl e)
         | (s1, Inr result) \<Rightarrow> (s1, Inr (if tripped result then result else not_tripped))))"

section \<open>src/wallet/WalletManager.js\<close>

text \<open>
  A wallet record as \<^verbatim>\<open>normalizeWalletData\<close> leaves it, and a persisted one, whose
  fields other than the private key may be missing.
\<close>

record wallet =
  pubkey :: string
  privateKey :: "nat list"
  name :: string
  isSeasoned :: bool

record raw_wallet =
  raw_pubkey :: "string option"
  raw_publicKey :: "string option"
  raw_privateKey :: "nat list"
  raw_name :: "string option"
  raw_isSeasoned :: "bool option"

text \<open>
  The collaborators, as seen by one operation: the key library (a key pair is modelled by
  its base58 public key; \<open>None\<close> when \<^verbatim>\<open>Keypair.fromSecretKey\<close> throws), the key pairs
  \<^verbatim>\<open>Keypair.generate()\<close> returns and the values \<^verbatim>\<open>Math.random()\<close> returns, in the order of the
  calls, the replies of the network client (\<open>None\<close> or \<open>False\<close> when the call throws) and
  the persistent store (\<^verbatim>\<open>WalletDataLoader\<close>).
\<close>

record env =
  Keypair_fromSecretKey :: "nat list \<Rightarrow> string option"
  Keypair_generate :: "nat \<Rightarrow> string \<times> nat list"
  Math_random :: "nat \<Rightarrow> rat"
  getBalance :: "string \<Rightarrow> nat option"
  sendTransaction :: "nat \<Rightarrow> bool"
  confirmTransaction :: "nat \<Rightarrow> bool"
  loadWallets :: "raw_wallet list option"
  writeWallets :: "wallet list \<Rightarrow> bool"

text \<open>
  The manager (its field \<^verbatim>\<open>config\<close> is \<open>wm_config\<close> here, \<open>config\<close> being the
  breaker's). A JavaScript \<^verbatim>\<open>Set\<close> iterates in insertion order: \<open>allPubkeys\<close> is the list
  of its elements in that order. A personality is \<open>None\<close> when the stored value is
  \<^verbatim>\<open>undefined\<close>.
\<close>

record wallet_manager =
  wm_config :: config
  walletData :: "wallet list"
  allPubkeys :: "string list"
  funded :: "string set"
  walletCooldowns :: "string \<rightharpoonup> int"
  walletTradeCount :: "string \<rightharpoonup> nat"
  walletPersonalities :: "string \<rightharpoonup> string option"
  sinkKeypair :: "string option"
  relayerKeypairs :: "string list"

definition new_WalletManager :: "config \<Rightarrow> wallet_manager" where
  "new_WalletManager c =
     \<lparr>wm_config = c, walletData = [], allPubkeys = [], funded = {},
      walletCooldowns = Map.empty, walletTradeCount = Map.empty,
      walletPersonalities = Map.empty, sinkKeypair = None, relayerKeypairs = []\<rparr>"



text \<open>Reading an array at an index: \<^verbatim>\<open>undefined\<close> out of range.\<close>

definition nth_opt :: "'a list \<Rightarrow> nat \<Rightarrow> 'a option" where
  "nth_opt xs i = (if i < length xs then Some (xs ! i) else None)"










text \<open>
  \<^verbatim>\<open>calculateFundingPart(remaining, remainingParts)\<close> (lines 210-215), with the value \<open>r\<close>
  of its \<^verbatim>\<open>Math.random()\<close>. The factor is computed on numbers (\<open>0.6\<close> and \<open>0.8\<close> are the
  binary64 values nearest to these decimals) and lies between 600 and 1400, as
  \<open>funding_factor_range\<close> shows below; the rest is
  exact big-number arithmetic, \<^verbatim>\<open>div\<close> truncating towards zero and failing on a zero
  divisor (\<open>None\<close>).
\<close>

definition funding_factor :: "rat \<Rightarrow> int" where
  "funding_factor r = \<lfloor>fl (fl (fl (3/5) + fl (r * fl (4/5))) * 1000)\<rfloor>"

definition calculateFundingPart :: "constants \<Rightarrow> rat \<Rightarrow> int \<Rightarrow> nat \<Rightarrow> int option" where
  "calculateFundingPart K r remaining remainingParts =
     (if remainingParts = 0 then None
      else
        let factor = funding_factor r;
            basePart = ((remaining * factor) sdiv 1000) sdiv int remainingParts;
            partNum = max basePart (int (MIN_SOL_BUFFER_LAMPORTS_BN K))
        in Some (min partNum remaining))"

text \<open>
  The effects of \<^verbatim>\<open>fundSingleWallet\<close>, in program order: the insertion into \<open>funded\<close>,
  the calls of the network client (with the relayer, the recipient and the lamports of a
  transfer), and the two log lines.
\<close>

datatype event =
    FundedAdd string
  | GetBalance string
  | SendTransaction string string int
  | ConfirmTransaction
  | LogInfo
  | LogWarn

text \<open>
  Observations on a sequence of effects: the lamports of the transfers submitted, in
  order, and the number of balance queries.
\<close>

fun amounts :: "event list \<Rightarrow> int list" where
  "amounts [] = []"
| "amounts (SendTransaction relayer to lamports # es) = lamports # amounts es"
| "amounts (e # es) = amounts es"

definition balance_checks :: "event list \<Rightarrow> nat" where
  "balance_checks es = length (filter (\<lambda>e. case e of GetBalance a \<Rightarrow> True | _ \<Rightarrow> False) es)"

text \<open>
  The loop of lines 178-197 for the recipient \<open>to\<close>. Iteration \<open>p\<close> draws three random
  values (factor, relayer, delay) after the one that chose \<open>parts\<close>. An exception
  (a missing relayer, a failed send or confirmation, an amount that
  \<^verbatim>\<open>toNumber\<close> rejects because it needs more than 53 bits) ends the loop in the
  \<^verbatim>\<open>catch\<close> block, which logs a warning.
\<close>

function fundLoop ::
  "constants \<Rightarrow> env \<Rightarrow> string list \<Rightarrow> string \<Rightarrow> nat \<Rightarrow> nat \<Rightarrow> int \<Rightarrow> event list" where
  "fundLoop K E relayers to parts p remaining =
     (if p < parts \<and> int (MIN_SOL_BUFFER_LAMPORTS_BN K) < remaining then
        (case calculateFundingPart K (Math_random E (1 + 3 * p)) remaining (parts - p) of
           None \<Rightarrow> [LogWarn]
         | Some cappedPart \<Rightarrow>
             (case nth_opt relayers
                     (random_index (Math_random E (2 + 3 * p)) (length relayers)) of
                None \<Rightarrow> [LogWarn]
              | Some relayer \<Rightarrow>
                  if \<not> sendTransaction E p
                  then [SendTransaction relayer to cappedPart, LogWarn]
                  else if \<not> confirmTransaction E p
                  then [SendTransaction relayer to cappedPart, ConfirmTransaction, LogWarn]
                  else if 2 ^ 53 \<le> \<bar>cappedPart\<bar>
                  then [SendTransaction relayer to cappedPart, ConfirmTransaction, LogWarn]
                  else SendTransaction relayer to cappedPart # ConfirmTransaction # LogInfo
                         # fundLoop K E relayers to parts (Suc p) (remaining - cappedPart)))
      else [])"
  by pat_completeness auto
termination
  by (relation "measure (\<lambda>(K, E, relayers, to, parts, p, remaining). parts - p)") auto

declare fundLoop.simps [simp del]

text \<open>
  \<^verbatim>\<open>fundSingleWallet(wallet)\<close> (lines 161-202): the new state, the effects, and whether
  the promise is rejected (only a private key that the key library refuses, at line 166,
  escapes the \<^verbatim>\<open>try\<close>).
\<close>

datatype outcome = Resolved | Rejected

definition fundSingleWallet ::
  "constants \<Rightarrow> env \<Rightarrow> wallet_manager \<Rightarrow> wallet
     \<Rightarrow> wallet_manager \<times> event list \<times> outcome" where
  "fundSingleWallet K E s w =
     (if pubkey w \<in> funded s then (s, [], Resolved)
      else
        let s1 = s\<lparr>funded := insert (pubkey w) (funded s)\<rparr> in
        (case Keypair_fromSecretKey E (privateKey w) of
           None \<Rightarrow> (s1, [FundedAdd (pubkey w)], Rejected)
         | Some kp \<Rightarrow>
             (case getBalance E kp of
                None \<Rightarrow> (s1, [FundedAdd (pubkey w), GetBalance kp, LogWarn], Resolved)
              | Some balance \<Rightarrow>
                  let fundAmount = fundAmountLamports (wm_config s);
                      threshold = (fundAmount * 8) sdiv 10
                  in if threshold \<le> int balance
                     then (s1, [FundedAdd (pubkey w), GetBalance kp], Resolved)
                     else
                       let remaining = fundAmount - int balance;
                           parts = nat \<lfloor>fl (Math_random E 0 * 4)\<rfloor> + 1
                       in (s1, FundedAdd (pubkey w) # GetBalance kp
                                 # fundLoop K E (relayerKeypairs s) kp parts 0 remaining,
                           Resolved))))"





text \<open>
  \<^verbatim>\<open>shuffleArray(array)\<close> (lines 340-348) on a store of arrays: an array value is an
  address, \<^verbatim>\<open>[...array]\<close> allocates a copy at a new address, and the loop swaps the elements
  of that copy in place. Iteration \<open>i\<close> uses the next random value.
\<close>

type_synonym 'a store = "'a list list"

function shuffleLoop :: "env \<Rightarrow> nat \<Rightarrow> nat \<Rightarrow> nat \<Rightarrow> 'a store \<Rightarrow> 'a store" where
  "shuffleLoop E k shuffled i h =
     (if 0 < i then
        let j = random_index (Math_random E k) (i + 1);
            a = h ! shuffled
        in shuffleLoop E (k + 1) shuffled (i - 1) (h[shuffled := a[i := a ! j, j := a ! i]])
      else h)"
  by pat_completeness auto
termination
  by (relation "measure (\<lambda>(E, k, shuffled, i, h). i)") auto

declare shuffleLoop.simps [simp del]

definition shuffleArray :: "env \<Rightarrow> 'a store \<Rightarrow> nat \<Rightarrow> 'a store \<times> nat" where
  "shuffleArray E h array =
     (let shuffled = length h;
          h1 = h @ [h ! array]
      in (shuffleLoop E 0 shuffled (length (h1 ! shuffled) - 1) h1, shuffled))"

text \<open>
  \<^verbatim>\<open>getWalletCooldown(walletKey)\<close> (lines 355-360), with the value \<open>baseCooldown\<close> that
  \<^verbatim>\<open>getRandomNumberBetween\<close> returns. The trade count is an integer, so its remainder
  by 5 is exact; the multiplier is computed on numbers, \<open>0.2\<close> being the binary64 value
  nearest to \<open>1/5\<close>.
\<close>

definition cooldownMultiplier :: "nat \<Rightarrow> rat" where
  "cooldownMultiplier tradeCount = fl (1 + fl (of_nat (tradeCount mod 5) * fl (1/5)))"

definition getWalletCooldown :: "number \<Rightarrow> wallet_manager \<Rightarrow> string \<Rightarrow> number" where
  "getWalletCooldown baseCooldown s walletKey =
     (let tradeCount = (case walletTradeCount s walletKey of None \<Rightarrow> 0 | Some c \<Rightarrow> c)
      in js_floor (js_mul baseCooldown (Fin (cooldownMultiplier tradeCount))))"

text \<open>
  Modelled from the spec: \<^verbatim>\<open>getRandomNumberBetween\<close> of \<^verbatim>\<open>utils.js\<close> is not part of the
  sources at hand. The spec says of it that the base cooldown "is drawn uniformly at
  random from a configured [min, max] range on every call": \<open>b\<close> is a possible result for
  the bounds \<open>lo\<close> and \<open>hi\<close> when it lies between them.
\<close>

definition getRandomNumberBetween_result :: "rat \<Rightarrow> rat \<Rightarrow> number \<Rightarrow> bool" where
  "getRandomNumberBetween_result lo hi b = (case b of Fin x \<Rightarrow> lo \<le> x \<and> x \<le> hi | _ \<Rightarrow> False)"

text \<open>\<^verbatim>\<open>markWalletUsed(wallet)\<close> (lines 366-370) at the time \<open>now\<close>, for the wallet's key.\<close>

definition markWalletUsed :: "int \<Rightarrow> wallet_manager \<Rightarrow> string \<Rightarrow> wallet_manager" where
  "markWalletUsed now s walletKey =
     s\<lparr>walletCooldowns := (walletCooldowns s)(walletKey \<mapsto> now),
       walletTradeCount := (walletTradeCount s)
          (walletKey \<mapsto> (case walletTradeCount s walletKey of None \<Rightarrow> 0 | Some c \<Rightarrow> c) + 1)\<rparr>"

text \<open>
  \<^verbatim>\<open>assignPersonalities()\<close> (lines 375-379): one random value for each element of
  \<open>allPubkeys\<close>, in iteration order. \<^verbatim>\<open>getPersonality(pubkey)\<close> (lines 386-389) for a
  string key.
\<close>

definition assignPersonalities :: "constants \<Rightarrow> env \<Rightarrow> wallet_manager \<Rightarrow> wallet_manager" where
  "assignPersonalities K E s =
     s\<lparr>walletPersonalities :=
         fold (\<lambda>(k, key) m.
                 m(key \<mapsto> nth_opt (PERSONALITIES K)
                              (random_index (Math_random E k) (length (PERSONALITIES K)))))
              (zip [0..<length (allPubkeys s)] (allPubkeys s))
              (walletPersonalities s)\<rparr>"

definition getPersonality :: "wallet_manager \<Rightarrow> string \<Rightarrow> string" where
  "getPersonality s key =
     (case walletPersonalities s key of
        Some (Some p) \<Rightarrow> if p = [] then ''flipper'' else p
      | _ \<Rightarrow> ''flipper'')"

section \<open>Example values\<close>

text \<open>
  A configuration and constants for the concrete instances below: a window of 10 outcomes,
  at most 3 consecutive failures, a failure rate of at most \<^verbatim>\<open>0.3\<close>, three wallets,
  a funding target of 1000 lamports with a minimum buffer of 10, a base cooldown of
  1000 ms.
\<close>

definition example_config :: config where
  "example_config =
     \<lparr>enableCircuitBreaker = True, failureRateWindow = 10, maxConsecutiveFailures = 3,
      maxFailureRate = Fin (fl (3/10)), emergencyStopLoss = Fin (fl (1/2)),
      numWalletsToGenerate = 3, fundAmountLamports = 1000,
      minWalletCooldownMs = 1000, maxWalletCooldownMs = 1000, autoScale = False,
      concurrency = 3, batchSize = 2, sinkPrivateKey = None, relayerPrivateKeys = []\<rparr>"

definition example_constants :: constants where
  "example_constants =
     \<lparr>SINK_BALANCE_CHECK_INTERVAL = 10, MIN_SOL_BUFFER_LAMPORTS_BN = 10,
      PERSONALITIES = [''flipper'', ''hodler'']\<rparr>"

text \<open>
  Collaborators for the concrete instances: every private key yields the key pair
  \<open>kp1\<close>, every random value is \<open>1/2\<close>, the balance query throws, transfers succeed,
  and the store is empty. A wallet to fund.
\<close>

definition example_env :: env where
  "example_env =
     \<lparr>Keypair_fromSecretKey = (\<lambda>k. Some ''kp1''),
      Keypair_generate = (\<lambda>n. (''gen'' @ show_nat n, [n])),
      Math_random = (\<lambda>n. 1/2),
      getBalance = (\<lambda>a. None),
      sendTransaction = (\<lambda>n. True),
      confirmTransaction = (\<lambda>n. True),
      loadWallets = Some [],
      writeWallets = (\<lambda>ws. True)\<rparr>"

definition example_wallet :: wallet where
  "example_wallet = \<lparr>pubkey = ''w1'', privateKey = [1], name = ''Wallet1'', isSeasoned = False\<rparr>"

section \<open>Properties of the rounding\<close>

lemma bitlen_rat_bounds:
  assumes "0 < p"
  shows "2 powi (bitlen p - 1) \<le> (of_int p :: rat)" and "(of_int p :: rat) < 2 powi (bitlen p)"
proof -
  from bitlen_bounds [OF assms]
  have a: "2 ^ nat (bitlen p - 1) \<le> p" and b: "p < 2 ^ nat (bitlen p)" by auto
  have pos: "1 \<le> bitlen p" using assms by (simp add: bitlen_alt_def)
  have "(of_int (2 ^ nat (bitlen p - 1)) :: rat) \<le> of_int p"
    using a by (simp only: of_int_le_iff)
  then show "2 powi (bitlen p - 1) \<le> (of_int p :: rat)"
    using pos by (simp add: power_int_def)
  have "(of_int p :: rat) < of_int (2 ^ nat (bitlen p))"
    using b by (simp only: of_int_less_iff)
  then show "(of_int p :: rat) < 2 powi (bitlen p)"
    using pos by (simp add: power_int_def)
qed

text \<open>The exponent brackets its argument, and is the only integer that does.\<close>

lemma expo_bounds:
  assumes "0 < x"
  shows "2 powi (expo x) \<le> x" and "x < 2 powi (expo x + 1)"
proof -
  obtain p q where pq: "quotient_of x = (p, q)" by (cases "quotient_of x")
  have q: "0 < q" using pq by (rule quotient_of_denom_pos)
  have x: "x = of_int p / of_int q" using pq by (rule quotient_of_div)
  have p: "0 < p" using assms q x by (simp add: zero_less_divide_iff)
  let ?d = "bitlen p - bitlen q"
  have qr: "(0::rat) < of_int q" using q by simp
  have up: "x < 2 powi (?d + 1)"
  proof -
    have "of_int p < (2::rat) powi bitlen p" by (rule bitlen_rat_bounds [OF p])
    also have "\<dots> = 2 powi (?d + 1) * 2 powi (bitlen q - 1)"
      by (simp flip: power_int_add)
    also have "\<dots> \<le> 2 powi (?d + 1) * of_int q"
      by (intro mult_left_mono bitlen_rat_bounds [OF q]) simp
    finally show ?thesis using qr by (simp add: x pos_divide_less_eq)
  qed
  have lo: "2 powi (?d - 1) < x"
  proof -
    have "2 powi (?d - 1) * of_int q < (2::rat) powi (?d - 1) * 2 powi bitlen q"
      by (intro mult_strict_left_mono bitlen_rat_bounds [OF q]) simp
    also have "\<dots> = 2 powi (bitlen p - 1)"
      by (simp flip: power_int_add)
    also have "\<dots> \<le> of_int p" by (rule bitlen_rat_bounds [OF p])
    finally show ?thesis using qr by (simp add: x pos_less_divide_eq)
  qed
  show "2 powi (expo x) \<le> x"
    using lo by (simp add: expo_def pq Let_def)
  show "x < 2 powi (expo x + 1)"
    using up by (simp add: expo_def pq Let_def)
qed

lemma pow2_less_cancel:
  assumes "(2::rat) powi a < 2 powi b"
  shows "a < b"
proof (rule ccontr)
  assume "\<not> a < b"
  then have "b \<le> a" by simp
  then have "(2::rat) powi b \<le> 2 powi a" by (intro power_int_increasing) simp_all
  with assms show False by simp
qed

lemma expo_unique:
  assumes "2 powi e \<le> x" and "x < 2 powi (e + 1)"
  shows "expo x = e"
proof -
  have "(0::rat) < 2 powi e" by simp
  then have pos: "0 < x" using assms(1) by (rule less_le_trans)
  note b = expo_bounds [OF pos]
  have "2 powi (expo x) < (2::rat) powi (e + 1)" using b(1) assms(2) by simp
  then have 1: "expo x < e + 1" by (rule pow2_less_cancel)
  have "2 powi e < (2::rat) powi (expo x + 1)" using b(2) assms(1) by simp
  then have 2: "e < expo x + 1" by (rule pow2_less_cancel)
  from 1 2 show ?thesis by simp
qed

lemma round_even_error: "\<bar>of_int (round_even m) - m\<bar> \<le> 1/2"
proof -
  have a: "of_int \<lfloor>m\<rfloor> \<le> m" and b: "m < of_int \<lfloor>m\<rfloor> + 1" by linarith+
  show ?thesis using a b by (auto simp: round_even_def Let_def)
qed

lemma round_even_nonneg: "0 \<le> m \<Longrightarrow> 0 \<le> round_even m"
  by (auto simp: round_even_def Let_def)

lemma round_even_of_int [simp]: "round_even (of_int k) = k"
  by (simp add: round_even_def)

lemma ulp_pos [simp]: "0 < ulp x"
  by (simp add: ulp_def)

lemma ulp_nonzero [simp]: "ulp x \<noteq> 0"
  by (simp add: ulp_def)

lemma ulp_nonneg [simp]: "0 \<le> ulp x"
  by (simp add: ulp_def)

text \<open>
  Evaluating the rounding at a positive rational whose exponent is known (in the normal
  range): the quotient by the spacing is rounded to an integer.
\<close>

lemma fl_pos_eval:
  assumes "2 powi e \<le> x" and "x < 2 powi (e + 1)" and "- 1022 \<le> e"
  shows "fl_pos x = of_int (round_even (x / 2 powi (e - 52))) * 2 powi (e - 52)"
proof -
  have "expo x = e" using assms(1,2) by (rule expo_unique)
  then have "ulp x = 2 powi (e - 52)" using assms(3) by (simp add: ulp_def max_def)
  then show ?thesis by (simp add: fl_pos_def)
qed

text \<open>The rounding error is at most half the spacing; a rounded value is not negative.\<close>

lemma fl_pos_error: "\<bar>fl_pos x - x\<bar> \<le> ulp x / 2"
proof -
  let ?k = "of_int (round_even (x / ulp x)) :: rat"
  have "?k * ulp x - x = (?k - x / ulp x) * ulp x"
    by (simp add: left_diff_distrib)
  then have "\<bar>fl_pos x - x\<bar> = \<bar>?k - x / ulp x\<bar> * ulp x"
    by (simp add: fl_pos_def abs_mult)
  also have "\<dots> \<le> 1/2 * ulp x"
    by (intro mult_right_mono round_even_error) simp
  finally show ?thesis by simp
qed

lemma fl_pos_nonneg:
  assumes "0 \<le> x"
  shows "0 \<le> fl_pos x"
proof -
  have "0 \<le> x / ulp x" using assms by simp
  then have "0 \<le> round_even (x / ulp x)" by (rule round_even_nonneg)
  then show ?thesis by (simp add: fl_pos_def)
qed

lemma fl_nonneg: "0 \<le> x \<Longrightarrow> 0 \<le> fl x"
  by (simp add: fl_def fl_pos_nonneg)

text \<open>Rounding a quotient of integers, on the integers; decimal digits of a numeral.\<close>

lemma round_even_divide:
  assumes "0 < b"
  shows "round_even (of_int a / of_int b) =
           (if 2 * (a mod b) < b then a div b
            else if b < 2 * (a mod b) then a div b + 1
            else if even (a div b) then a div b else a div b + 1)"
proof -
  have f: "\<lfloor>(of_int a / of_int b :: rat)\<rfloor> = a div b"
    by (rule floor_divide_of_int_eq)
  have br: "(0::rat) < of_int b" using assms by simp
  have "(of_int a :: rat) = of_int (a div b) * of_int b + of_int (a mod b)"
    by (simp only: of_int_mult [symmetric] of_int_add [symmetric] div_mult_mod_eq)
  then have d: "(of_int a / of_int b :: rat) - of_int (a div b) = of_int (a mod b) / of_int b"
    using br by (simp add: field_simps)
  have lt: "(of_int (a mod b) / of_int b :: rat) < 1/2 \<longleftrightarrow> 2 * (a mod b) < b"
  proof -
    have "(of_int (a mod b) / of_int b :: rat) < 1/2
            \<longleftrightarrow> (of_int (2 * (a mod b)) :: rat) < of_int b"
      using br by (simp add: field_simps)
    then show ?thesis by (simp only: of_int_less_iff)
  qed
  have gt: "1/2 < (of_int (a mod b) / of_int b :: rat) \<longleftrightarrow> b < 2 * (a mod b)"
  proof -
    have "1/2 < (of_int (a mod b) / of_int b :: rat)
            \<longleftrightarrow> (of_int b :: rat) < of_int (2 * (a mod b))"
      using br by (simp add: field_simps)
    then show ?thesis by (simp only: of_int_less_iff)
  qed
  show ?thesis
    unfolding round_even_def Let_def f d lt gt ..
qed

lemma round_even_numeral_divide:
  "round_even (numeral a / numeral b) =
     (if 2 * (numeral a mod numeral b) < (numeral b :: int) then numeral a div numeral b
      else if (numeral b :: int) < 2 * (numeral a mod numeral b) then numeral a div numeral b + 1
      else if even (numeral a div numeral b :: int) then numeral a div numeral b
      else numeral a div numeral b + 1)"
  using round_even_divide [of "numeral b" "numeral a"] by simp

lemma floor_rat_numeral_divide:
  "\<lfloor>numeral a / numeral b :: rat\<rfloor> = numeral a div numeral b"
  using floor_divide_of_int_eq [of "numeral a" "numeral b", where ?'a = rat] by simp

lemma round_even_numeral [simp]: "round_even (numeral a) = numeral a"
  using round_even_of_int [of "numeral a"] by simp

lemma show_nat_digit: "n < 10 \<Longrightarrow> show_nat n = [''0123456789'' ! n]"
  by (simp add: show_nat.simps)

lemma show_nat_more:
  "10 \<le> n \<Longrightarrow> show_nat n = show_nat (n div 10) @ [''0123456789'' ! (n mod 10)]"
  by (subst show_nat.simps) simp

text \<open>Values used in the concrete instances.\<close>

lemma fl_3_10: "fl (3/10) = 5404319552844595 / 18014398509481984"
  by (simp add: fl_def fl_pos_eval [where e = "- 2"] round_even_numeral_divide)

lemma fl_4_10: "fl (4/10) = 3602879701896397 / 9007199254740992"
  by (simp add: fl_def fl_pos_eval [where e = "- 2"] round_even_numeral_divide)

lemma fl_rate_percent: "fl (3602879701896397 / 9007199254740992 * 100) = 40"
  by (simp add: fl_def fl_pos_eval [where e = "5"] round_even_numeral_divide)

lemma to_number_small: "\<bar>y\<bar> < 2 ^ 1024 \<Longrightarrow> to_number y = Fin y"
  by (auto simp: to_number_def)

text \<open>
  A binary64 value below 1 is at most \<open>1 - 2 powi - 53\<close>, and the index drawn for a positive
  count \<open>n\<close> is below \<open>n\<close>: rounding the product cannot reach \<open>n\<close>.
\<close>

lemma is_random_le:
  assumes "is_random r"
  shows "r \<le> 1 - 1 / 2 ^ 53"
proof (cases "r < 1/2")
  case True
  then show ?thesis by simp
next
  case False
  from assms have r1: "r < 1" and fixed: "fl r = r" by (simp_all add: is_random_def)
  have lo: "2 powi (- 1) \<le> r" using False by simp
  have hi: "r < 2 powi (- 1 + 1)" using r1 by simp
  have e: "expo r = - 1" using lo hi by (rule expo_unique)
  have u: "ulp r = 1 / 2 ^ 53" by (simp add: ulp_def e power_int_minus_divide)
  define k where "k = round_even (r / ulp r)"
  have pos: "0 < r" using False by simp
  have "r = of_int k / 2 ^ 53"
    using fixed pos by (simp add: fl_def fl_pos_def k_def u)
  then have rk: "r * 2 ^ 53 = of_int k" by simp
  have "of_int k < (2 ^ 53 :: rat)"
    using r1 unfolding rk [symmetric] by simp
  then have "of_int k < (of_int (2 ^ 53) :: rat)" by simp
  then have "k < 2 ^ 53" by (simp only: of_int_less_iff)
  then have "k \<le> 2 ^ 53 - 1" by simp
  then have "(of_int k :: rat) \<le> of_int (2 ^ 53 - 1)" by (simp only: of_int_le_iff)
  then have "r * 2 ^ 53 \<le> 2 ^ 53 - 1" unfolding rk by simp
  then show ?thesis by (simp add: field_simps)
qed

lemma random_index_less:
  assumes "is_random r" and "0 < n"
  shows "random_index r n < n"
proof -
  let ?x = "r * of_nat n"
  have r0: "0 \<le> r" using assms(1) by (simp add: is_random_def)
  have rle: "r \<le> 1 - 1 / 2 ^ 53" using assms(1) by (rule is_random_le)
  have n1: "(1::rat) \<le> of_nat n" using assms(2) by simp
  have x0: "0 \<le> ?x" using r0 by simp
  have lt: "fl ?x < of_nat n"
  proof (cases "?x = 0")
    case True
    then show ?thesis using assms(2) by (simp add: fl_def)
  next
    case False
    with x0 have xpos: "0 < ?x" by (simp only: less_le) simp
    have flx: "fl ?x = fl_pos ?x"
      unfolding fl_def by (simp only: False xpos if_True if_False)
    have err: "fl_pos ?x \<le> ?x + ulp ?x / 2"
      using fl_pos_error [of ?x] by linarith
    show ?thesis
    proof (cases "- 1022 \<le> expo ?x")
      case True
      then have "ulp ?x = 2 powi (expo ?x) / 2 ^ 52"
        by (simp add: ulp_def max_def power_int_diff)
      also have "\<dots> \<le> ?x / 2 ^ 52"
        using expo_bounds(1) [OF xpos] by (simp add: divide_right_mono)
      finally have "fl_pos ?x \<le> ?x * (1 + 1 / 2 ^ 53)"
        using err by (simp add: field_simps)
      also have "\<dots> \<le> (of_nat n * (1 - 1 / 2 ^ 53)) * (1 + 1 / 2 ^ 53)"
      proof -
        have "r * of_nat n \<le> (1 - 1 / 2 ^ 53) * of_nat n"
          using rle by (rule mult_right_mono) simp
        then have "?x \<le> of_nat n * (1 - 1 / 2 ^ 53)"
          by (simp only: mult.commute)
        then show ?thesis by (rule mult_right_mono) simp
      qed
      also have "\<dots> < of_nat n"
      proof -
        have "(1 - 1 / 2 ^ 53) * (1 + 1 / 2 ^ 53) < (1::rat)" by simp
        then have "of_nat n * ((1 - 1 / 2 ^ 53) * (1 + 1 / 2 ^ 53)) < of_nat n * (1::rat)"
          using assms(2) by (intro mult_strict_left_mono) simp_all
        then show ?thesis by (simp add: mult.assoc)
      qed
      finally show ?thesis using flx by simp
    next
      case False
      then have u: "ulp ?x = 2 powi (- 1074)" by (simp add: ulp_def max_def)
      have "?x < 2 powi (expo ?x + 1)" by (rule expo_bounds(2) [OF xpos])
      also have "\<dots> \<le> 2 powi (- 1)"
        using False by (intro power_int_increasing) simp_all
      finally have xs: "?x < 1 / 2" by simp
      have "(2::rat) powi (- 1074) \<le> 2 powi 0"
        by (intro power_int_increasing) simp_all
      then have us: "ulp ?x \<le> 1" using u by simp
      have "fl_pos ?x < 1" using err xs us by simp
      then show ?thesis using flx n1 by simp
    qed
  qed
  have "0 \<le> fl ?x" using x0 by (rule fl_nonneg)
  then have "0 \<le> \<lfloor>fl ?x\<rfloor>" by simp
  moreover have "\<lfloor>fl ?x\<rfloor> < int n" using lt by (simp add: floor_less_iff)
  ultimately show ?thesis unfolding random_index_def by linarith
qed

text \<open>The rounding is monotone.\<close>

lemma round_even_floor: "\<lfloor>m\<rfloor> \<le> round_even m" "round_even m \<le> \<lfloor>m\<rfloor> + 1"
  by (simp_all add: round_even_def Let_def)

lemma round_even_mono:
  assumes "m \<le> m'"
  shows "round_even m \<le> round_even m'"
proof (cases "\<lfloor>m\<rfloor> = \<lfloor>m'\<rfloor>")
  case True
  have "m - of_int \<lfloor>m\<rfloor> \<le> m' - of_int \<lfloor>m\<rfloor>" using assms by simp
  then show ?thesis
    using True by (auto simp: round_even_def Let_def)
next
  case False
  have "\<lfloor>m\<rfloor> \<le> \<lfloor>m'\<rfloor>" using assms by (rule floor_mono)
  with False have "\<lfloor>m\<rfloor> + 1 \<le> \<lfloor>m'\<rfloor>" by simp
  with round_even_floor(2) [of m] round_even_floor(1) [of m'] show ?thesis by linarith
qed

lemma round_even_le_int: "m \<le> of_int k \<Longrightarrow> round_even m \<le> k"
  using round_even_mono [of m "of_int k"] by simp

lemma round_even_ge_int: "of_int k \<le> m \<Longrightarrow> k \<le> round_even m"
  using round_even_mono [of "of_int k" m] by simp

lemma expo_mono:
  assumes "0 < x" and "x \<le> y"
  shows "expo x \<le> expo y"
proof -
  have y: "0 < y" using assms by simp
  have "2 powi (expo x) \<le> x" by (rule expo_bounds(1) [OF assms(1)])
  also have "x \<le> y" by (rule assms(2))
  also have "y < 2 powi (expo y + 1)" by (rule expo_bounds(2) [OF y])
  finally have "expo x < expo y + 1" by (rule pow2_less_cancel)
  then show ?thesis by simp
qed

lemma pow2_53: "(2::rat) powi 53 * 2 powi (e - 52) = 2 powi (e + 1)"
proof -
  have "(2::rat) powi (53 + (e - 52)) = 2 powi 53 * 2 powi (e - 52)"
    by (rule power_int_add) simp
  moreover have "53 + (e - 52) = e + 1" by simp
  ultimately show ?thesis by simp
qed

lemma pow2_52: "(2::rat) powi 52 * 2 powi (e - 52) = 2 powi e"
proof -
  have "(2::rat) powi (52 + (e - 52)) = 2 powi 52 * 2 powi (e - 52)"
    by (rule power_int_add) simp
  moreover have "52 + (e - 52) = e" by simp
  ultimately show ?thesis by simp
qed

lemma fl_pos_mono:
  assumes "0 < x" and "x \<le> y"
  shows "fl_pos x \<le> fl_pos y"
proof -
  have y: "0 < y" using assms by simp
  let ?ex = "max (expo x) (- 1022)" and ?ey = "max (expo y) (- 1022)"
  have ux: "ulp x = 2 powi (?ex - 52)" and uy: "ulp y = 2 powi (?ey - 52)"
    by (simp_all add: ulp_def)
  have le: "?ex \<le> ?ey" using expo_mono [OF assms] by simp
  show ?thesis
  proof (cases "?ex = ?ey")
    case True
    then have u: "ulp x = ulp y" by (simp add: ux uy)
    have "x / ulp y \<le> y / ulp y" using assms(2) by (simp add: divide_right_mono)
    then have "round_even (x / ulp y) \<le> round_even (y / ulp y)" by (rule round_even_mono)
    then have "(of_int (round_even (x / ulp y)) :: rat) \<le> of_int (round_even (y / ulp y))"
      by (simp only: of_int_le_iff)
    then show ?thesis
      by (simp add: fl_pos_def u mult_right_mono)
  next
    case False
    with le have lt: "?ex + 1 \<le> ?ey" by simp
    then have ey: "?ey = expo y" by (simp add: max_def split: if_splits)
    have "x < 2 powi (expo x + 1)" by (rule expo_bounds(2) [OF assms(1)])
    also have "\<dots> \<le> 2 powi (?ex + 1)" by (intro power_int_increasing) simp_all
    also have "\<dots> = 2 powi 53 * 2 powi (?ex - 52)"
      by (rule pow2_53 [symmetric])
    finally have "x / ulp x \<le> 2 powi 53" by (simp add: ux pos_divide_le_eq)
    then have "x / ulp x \<le> of_int (2 ^ 53)" by simp
    then have "round_even (x / ulp x) \<le> 2 ^ 53" by (rule round_even_le_int)
    then have "(of_int (round_even (x / ulp x)) :: rat) \<le> of_int (2 ^ 53)"
      by (simp only: of_int_le_iff)
    then have "fl_pos x \<le> of_int (2 ^ 53) * ulp x"
      unfolding fl_pos_def by (rule mult_right_mono) simp
    also have "\<dots> = 2 powi 53 * 2 powi (?ex - 52)" by (simp add: ux)
    also have "\<dots> = 2 powi (?ex + 1)"
      by (rule pow2_53)
    also have "\<dots> \<le> 2 powi ?ey" using lt by (intro power_int_increasing) simp_all
    finally have a: "fl_pos x \<le> 2 powi ?ey" .
    have "(2::rat) powi ?ey = 2 powi 52 * 2 powi (?ey - 52)"
      by (rule pow2_52 [symmetric])
    moreover have "2 powi ?ey \<le> y" unfolding ey by (rule expo_bounds(1) [OF y])
    ultimately have "2 powi 52 \<le> y / ulp y" by (simp add: uy pos_le_divide_eq)
    then have "of_int (2 ^ 52) \<le> y / ulp y" by simp
    then have "2 ^ 52 \<le> round_even (y / ulp y)" by (rule round_even_ge_int)
    then have "(of_int (2 ^ 52) :: rat) \<le> of_int (round_even (y / ulp y))"
      by (simp only: of_int_le_iff)
    then have "of_int (2 ^ 52) * ulp y \<le> fl_pos y"
      unfolding fl_pos_def by (rule mult_right_mono) simp
    moreover have "of_int (2 ^ 52) * ulp y = 2 powi 52 * 2 powi (?ey - 52)" by (simp add: uy)
    moreover have "(2::rat) powi 52 * 2 powi (?ey - 52) = 2 powi ?ey"
      by (rule pow2_52)
    ultimately have b: "2 powi ?ey \<le> fl_pos y" by simp
    from a b show ?thesis by simp
  qed
qed

lemma fl_mono:
  assumes "x \<le> y"
  shows "fl x \<le> fl y"
proof -
  consider "0 < x" | "x \<le> 0" "0 \<le> y" | "y < 0" by linarith
  then show ?thesis
  proof cases
    case 1
    then have "0 < y" using assms by simp
    with 1 fl_pos_mono [OF 1 assms] show ?thesis by (simp add: fl_def)
  next
    case 2
    have "fl x \<le> 0"
      using 2(1) fl_pos_nonneg [of "- x"] by (simp add: fl_def)
    moreover have "0 \<le> fl y" using 2(2) by (rule fl_nonneg)
    ultimately show ?thesis by simp
  next
    case 3
    then have x: "x < 0" using assms by simp
    have "fl_pos (- y) \<le> fl_pos (- x)"
      using 3 assms by (intro fl_pos_mono) simp_all
    then show ?thesis using 3 x by (simp add: fl_def)
  qed
qed


text \<open>
  For a random value that \<^verbatim>\<open>Math.random()\<close> can return the factor of
  \<^verbatim>\<open>calculateFundingPart\<close> lies between 600 and 1400: it is a number that
  \<^verbatim>\<open>new BN(factor)\<close> accepts.
\<close>

lemma funding_factor_range:
  assumes "is_random r"
  shows "600 \<le> funding_factor r" and "funding_factor r \<le> 1400"
proof -
  have c06: "fl (3 / 5) = 5404319552844595 / 9007199254740992"
    by (simp add: fl_def fl_pos_eval [where e = "- 1"] round_even_numeral_divide)
  have c08: "fl (4 / 5) = 3602879701896397 / 4503599627370496"
    by (simp add: fl_def fl_pos_eval [where e = "- 1"] round_even_numeral_divide)
  have i08: "fl (3602879701896397 / 4503599627370496) = 3602879701896397 / 4503599627370496"
    by (simp add: fl_def fl_pos_eval [where e = "- 1"] round_even_numeral_divide)
  have i06: "fl (5404319552844595 / 9007199254740992) = 5404319552844595 / 9007199254740992"
    by (simp add: fl_def fl_pos_eval [where e = "- 1"] round_even_numeral_divide)
  have sum: "fl (12610078956637389 / 9007199254740992) = 3152519739159347 / 2251799813685248"
    by (simp add: fl_def fl_pos_eval [where e = "0"] round_even_numeral_divide)
  have lo1000: "fl (675539944105574375 / 1125899906842624) = 600"
    by (simp add: fl_def fl_pos_eval [where e = "9"] round_even_numeral_divide)
  have hi1000: "fl (394064967394918375 / 281474976710656) = 1400"
    by (simp add: fl_def fl_pos_eval [where e = "10"] round_even_numeral_divide)
  from assms have r0: "0 \<le> r" and r1: "r \<le> 1" by (simp_all add: is_random_def)
  let ?a = "fl (r * (3602879701896397 / 4503599627370496))"
  let ?b = "fl (5404319552844595 / 9007199254740992 + ?a)"
  let ?c = "fl (?b * 1000)"
  have a0: "0 \<le> ?a" using r0 by (intro fl_nonneg) simp
  have "r * (3602879701896397 / 4503599627370496) \<le> 1 * (3602879701896397 / 4503599627370496)"
    using r1 by (rule mult_right_mono) simp
  then have "?a \<le> fl (1 * (3602879701896397 / 4503599627370496))" by (rule fl_mono)
  then have a1: "?a \<le> 3602879701896397 / 4503599627370496" by (simp add: i08)
  have "fl (5404319552844595 / 9007199254740992) \<le> ?b"
    using a0 by (intro fl_mono) simp
  then have b0: "5404319552844595 / 9007199254740992 \<le> ?b" by (simp add: i06)
  have "?b \<le> fl (5404319552844595 / 9007199254740992 + 3602879701896397 / 4503599627370496)"
    using a1 by (intro fl_mono) simp
  then have b1: "?b \<le> 3152519739159347 / 2251799813685248" by (simp add: sum)
  have "fl (5404319552844595 / 9007199254740992 * 1000) \<le> ?c"
    using b0 by (intro fl_mono) simp
  then have c0: "600 \<le> ?c" by (simp add: lo1000)
  have "?c \<le> fl (3152519739159347 / 2251799813685248 * 1000)"
    using b1 by (intro fl_mono) simp
  then have c1: "?c \<le> 1400" by (simp add: hi1000)
  have f: "funding_factor r = \<lfloor>?c\<rfloor>"
    by (simp add: funding_factor_def c06 c08)
  show "600 \<le> funding_factor r"
    unfolding f using c0 by (simp add: le_floor_iff)
  show "funding_factor r \<le> 1400"
    unfolding f using c1 by (simp add: floor_le_iff)
qed

section \<open>Properties of the circuit breaker\<close>

lemma recordTradeResult_config:
  "config (recordTradeResult s b) = config s"
  by (simp add: recordTradeResult_def Let_def)

lemma foldl_recordTradeResult_config:
  "config (foldl recordTradeResult s bs) = config s"
  by (induction bs arbitrary: s) (simp_all add: recordTradeResult_config)

text \<open>
  One recorded outcome: when the buffer holds at most the window, the new buffer is the old
  one with the outcome appended, cut to its last \<open>failureRateWindow\<close> elements.
\<close>

lemma recordTradeResult_window:
  assumes "enableCircuitBreaker (config s)"
    and "length (recentTrades s) \<le> failureRateWindow (config s)"
  shows "recentTrades (recordTradeResult s b) =
           drop (Suc (length (recentTrades s)) - failureRateWindow (config s))
             (recentTrades s @ [b])"
proof (cases "failureRateWindow (config s) < Suc (length (recentTrades s))")
  case True
  with assms(2) have eq: "length (recentTrades s) = failureRateWindow (config s)"
    by simp
  have "tl (recentTrades s @ [b]) = drop (Suc 0) (recentTrades s @ [b])"
    by (simp only: drop_Suc drop_0)
  with True eq assms(1) show ?thesis
    by (simp add: recordTradeResult_def Let_def del: tl_append2 drop_append)
next
  case False
  with assms(1) show ?thesis
    by (simp add: recordTradeResult_def Let_def)
qed

lemma recentTrades_run:
  assumes "enableCircuitBreaker c"
  shows "recentTrades (foldl recordTradeResult (new_CircuitBreaker c) outcomes) =
           drop (length outcomes - failureRateWindow c) outcomes"
proof (induction outcomes rule: rev_induct)
  case Nil
  show ?case by (simp add: new_CircuitBreaker_def)
next
  case (snoc b bs)
  let ?s = "foldl recordTradeResult (new_CircuitBreaker c) bs"
  have cfg: "config ?s = c"
    by (simp add: foldl_recordTradeResult_config new_CircuitBreaker_def)
  have len: "length (recentTrades ?s) \<le> failureRateWindow (config ?s)"
    using snoc.IH cfg by simp
  have "recentTrades (recordTradeResult ?s b) =
          drop (Suc (length (recentTrades ?s)) - failureRateWindow c) (recentTrades ?s @ [b])"
    using recordTradeResult_window [OF _ len, of b] assms cfg by simp
  also have "\<dots> = drop (Suc (length bs) - failureRateWindow c) (bs @ [b])"
    using snoc.IH by (cases "length bs \<le> failureRateWindow c") (simp_all add: Suc_diff_le)
  finally show ?case by simp
qed

lemma four_failures:
  "foldl recordTradeResult (new_CircuitBreaker example_config) [False, False, False, False]
     = (new_CircuitBreaker example_config)
         \<lparr>recentTrades := [False, False, False, False], consecutiveFailures := 4\<rparr>"
  by (simp add: recordTradeResult_def new_CircuitBreaker_def example_config_def)

text \<open>
  C1 as stated is refuted: after four failures recorded in a row, with a limit of 3, the
  counter is 4 and the check trips, although the counter does not equal the limit.
\<close>

theorem C1_exact_equality_counterexample:
  "enableCircuitBreaker
     (config (foldl recordTradeResult (new_CircuitBreaker example_config)
                [False, False, False, False]))
   \<and> tripped (checkConsecutiveFailures
        (foldl recordTradeResult (new_CircuitBreaker example_config)
           [False, False, False, False]))
   \<and> consecutiveFailures
        (foldl recordTradeResult (new_CircuitBreaker example_config)
           [False, False, False, False]) = 4
   \<and> maxConsecutiveFailures
        (config (foldl recordTradeResult (new_CircuitBreaker example_config)
                   [False, False, False, False])) = 3"
  unfolding four_failures
  by (simp add: checkConsecutiveFailures_def new_CircuitBreaker_def example_config_def)

text \<open>
  C1, amended: the consecutive-failure check trips if and only if the counter has reached
  the limit, \<open>maxConsecutiveFailures \<le> consecutiveFailures\<close>: it does not trip for any
  smaller counter value, and it trips for every larger one. With the breaker enabled,
  \<^verbatim>\<open>checkCircuitBreakers\<close> then returns this first check's result, whose reason gives the
  counter, without running the other checks.
\<close>

theorem C1_trips_iff_limit_reached:
  "(tripped (checkConsecutiveFailures s) \<longleftrightarrow>
      maxConsecutiveFailures (config s) \<le> consecutiveFailures s)
   \<and> (enableCircuitBreaker (config s)
        \<and> maxConsecutiveFailures (config s) \<le> consecutiveFailures s \<longrightarrow>
        checkCircuitBreakers K reply sink s
          = (s, Inr \<lparr>tripped = True,
                     reason = ''Circuit Breaker: '' @ show_nat (consecutiveFailures s)
                                @ '' consecutive failures''\<rparr>))"
  by (simp add: checkCircuitBreakers_def checkConsecutiveFailures_def not_tripped_def)

theorem C1_trips_iff_limit_reached_witness:
  "enableCircuitBreaker (config ((new_CircuitBreaker example_config)\<lparr>consecutiveFailures := 3\<rparr>))
   \<and> checkCircuitBreakers example_constants None None
        ((new_CircuitBreaker example_config)\<lparr>consecutiveFailures := 3\<rparr>)
       = ((new_CircuitBreaker example_config)\<lparr>consecutiveFailures := 3\<rparr>,
          Inr \<lparr>tripped = True, reason = ''Circuit Breaker: 3 consecutive failures''\<rparr>)"
  using C1_trips_iff_limit_reached
    [of "(new_CircuitBreaker example_config)\<lparr>consecutiveFailures := 3\<rparr>"
        example_constants None None]
  by (simp add: new_CircuitBreaker_def example_config_def show_nat_digit)

text \<open>
  C4: starting from a new breaker with the feature enabled and window \<open>W\<close>, after any
  sequence of recorded outcomes the buffer is no longer than \<open>W\<close>, its length is
  \<open>min n W\<close> for \<open>n\<close> outcomes, and it holds exactly the last \<open>min n W\<close> outcomes in
  recording order (the oldest dropped first).
\<close>

theorem C4_window_last_outcomes:
  assumes "enableCircuitBreaker c"
  shows "length (recentTrades (foldl recordTradeResult (new_CircuitBreaker c) outcomes))
           \<le> failureRateWindow c
       \<and> length (recentTrades (foldl recordTradeResult (new_CircuitBreaker c) outcomes))
           = min (length outcomes) (failureRateWindow c)
       \<and> recentTrades (foldl recordTradeResult (new_CircuitBreaker c) outcomes)
           = drop (length outcomes - min (length outcomes) (failureRateWindow c)) outcomes"
proof -
  have m: "length outcomes - min (length outcomes) (failureRateWindow c)
             = length outcomes - failureRateWindow c"
    by simp
  show ?thesis
    unfolding m recentTrades_run [OF assms] by auto
qed

theorem C4_window_last_outcomes_witness:
  "enableCircuitBreaker (example_config\<lparr>failureRateWindow := 2\<rparr>)
   \<and> recentTrades (foldl recordTradeResult
         (new_CircuitBreaker (example_config\<lparr>failureRateWindow := 2\<rparr>))
         [True, False, False]) = [False, False]"
  using C4_window_last_outcomes
    [of "example_config\<lparr>failureRateWindow := 2\<rparr>" "[True, False, False]"]
  by (simp add: example_config_def)

lemma checkFailureRate_tripped:
  "tripped (checkFailureRate s) \<longleftrightarrow>
     failureRateWindow (config s) \<le> length (recentTrades s)
     \<and> js_gt (js_div (Fin (of_nat (length (filter (\<lambda>r. \<not> r) (recentTrades s)))))
                      (Fin (of_nat (length (recentTrades s)))))
              (maxFailureRate (config s))"
  by (simp add: checkFailureRate_def not_tripped_def Let_def)

lemma checkFailureRate_reason:
  "tripped (checkFailureRate s) \<Longrightarrow>
     reason (checkFailureRate s) =
       ''Circuit Breaker: ''
       @ toFixed1 (js_mul (js_div (Fin (of_nat (length (filter (\<lambda>r. \<not> r) (recentTrades s)))))
                                  (Fin (of_nat (length (recentTrades s))))) (Fin 100))
       @ ''% failure rate (last '' @ show_nat (failureRateWindow (config s)) @ '' trades)''"
  by (simp add: checkFailureRate_def not_tripped_def Let_def split: if_splits)

text \<open>
  C5: for a breaker that recorded \<open>outcomes\<close> from its construction, with the feature
  enabled, the failure-rate check trips if and only if at least \<open>failureRateWindow\<close>
  outcomes have been recorded and the failure rate of the window (the number of failures
  among the last \<open>failureRateWindow\<close> outcomes divided by the length of the window, as
  numbers) is strictly greater than \<open>maxFailureRate\<close>; the reason then reports that rate in
  percent with one decimal.
\<close>

theorem C5_failure_rate_check:
  assumes "enableCircuitBreaker c"
  shows "let s = foldl recordTradeResult (new_CircuitBreaker c) outcomes;
             window = drop (length outcomes - failureRateWindow c) outcomes;
             rate = js_div (Fin (of_nat (length (filter (\<lambda>r. \<not> r) window))))
                           (Fin (of_nat (length window)))
         in (tripped (checkFailureRate s) \<longleftrightarrow>
               failureRateWindow c \<le> length outcomes \<and> js_gt rate (maxFailureRate c))
          \<and> (tripped (checkFailureRate s) \<longrightarrow>
               reason (checkFailureRate s) =
                 ''Circuit Breaker: '' @ toFixed1 (js_mul rate (Fin 100))
                 @ ''% failure rate (last '' @ show_nat (failureRateWindow c) @ '' trades)'')"
proof -
  let ?s = "foldl recordTradeResult (new_CircuitBreaker c) outcomes"
  have w: "recentTrades ?s = drop (length outcomes - failureRateWindow c) outcomes"
    by (rule recentTrades_run [OF assms])
  have c: "config ?s = c"
    by (simp add: foldl_recordTradeResult_config new_CircuitBreaker_def)
  have full: "failureRateWindow c \<le> length (drop (length outcomes - failureRateWindow c) outcomes)
                \<longleftrightarrow> failureRateWindow c \<le> length outcomes"
    by auto
  have t: "tripped (checkFailureRate ?s) \<longleftrightarrow>
             failureRateWindow c \<le> length outcomes
             \<and> js_gt (js_div (Fin (of_nat (length (filter (\<lambda>r. \<not> r)
                                (drop (length outcomes - failureRateWindow c) outcomes)))))
                        (Fin (of_nat (length (drop (length outcomes - failureRateWindow c) outcomes)))))
                  (maxFailureRate c)"
    using checkFailureRate_tripped [of ?s] by (simp only: c w full)
  have r: "tripped (checkFailureRate ?s) \<Longrightarrow>
           reason (checkFailureRate ?s) =
             ''Circuit Breaker: ''
             @ toFixed1 (js_mul (js_div (Fin (of_nat (length (filter (\<lambda>r. \<not> r)
                                (drop (length outcomes - failureRateWindow c) outcomes)))))
                        (Fin (of_nat (length (drop (length outcomes - failureRateWindow c) outcomes)))))
                  (Fin 100))
             @ ''% failure rate (last '' @ show_nat (failureRateWindow c) @ '' trades)''"
    using checkFailureRate_reason [of ?s] by (simp only: c w)
  show ?thesis
    unfolding Let_def using t r by blast
qed

text \<open>
  The instance of the spec: a window of 10 holding 4 failures and the threshold
  \<^verbatim>\<open>0.3\<close> trip the check with the reported rate \<^verbatim>\<open>40.0%\<close>.
\<close>

theorem C5_failure_rate_check_witness:
  "enableCircuitBreaker example_config
   \<and> checkFailureRate (foldl recordTradeResult (new_CircuitBreaker example_config)
        [True, True, False, False, True, False, True, True, False, True, True, False, True])
     = \<lparr>tripped = True, reason = ''Circuit Breaker: 40.0% failure rate (last 10 trades)''\<rparr>"
proof -
  let ?outs = "[True, True, False, False, True, False, True, True, False, True, True, False, True]"
  have e: "enableCircuitBreaker example_config" by (simp add: example_config_def)
  have W: "failureRateWindow example_config = 10" by (simp add: example_config_def)
  have M: "maxFailureRate example_config = Fin (5404319552844595 / 18014398509481984)"
    by (simp add: example_config_def fl_3_10)
  have rate: "js_div (Fin 4) (Fin 10) = Fin (3602879701896397 / 9007199254740992)"
    using fl_4_10 by (simp add: js_div_def to_number_small)
  have pct: "js_mul (Fin (3602879701896397 / 9007199254740992)) (Fin 100) = Fin 40"
    using fl_rate_percent by (simp add: js_mul_def to_number_small)
  have fx: "toFixed1 (Fin 40) = ''40.0''"
    by (simp add: toFixed1_def show_nat_digit show_nat_more Let_def floor_rat_numeral_divide)
  have sn: "show_nat 10 = ''10''"
    by (simp add: show_nat_digit show_nat_more)
  from C5_failure_rate_check [OF e, of ?outs]
  have "tripped (checkFailureRate (foldl recordTradeResult (new_CircuitBreaker example_config) ?outs))
      \<and> reason (checkFailureRate (foldl recordTradeResult (new_CircuitBreaker example_config) ?outs))
          = ''Circuit Breaker: 40.0% failure rate (last 10 trades)''"
    by (simp add: Let_def W M rate pct fx sn js_gt_def)
  then show ?thesis using e by (cases "checkFailureRate (foldl recordTradeResult (new_CircuitBreaker example_config) ?outs)") simp
qed

text \<open>
  In exact terms: when the threshold is the binary64 value nearest to a rational \<open>q\<close>
  (the configured decimal), a trip implies that the exact fraction of failures in the
  buffer is strictly greater than \<open>q\<close>; conversely, with a full, non-empty buffer and an
  exact fraction greater than \<open>q\<close>, the rate computed is at least the threshold.
\<close>

lemma failure_rate_exact:
  assumes "maxFailureRate (config s) = Fin (fl q)"
  shows "tripped (checkFailureRate s) \<Longrightarrow>
           recentTrades s \<noteq> []
           \<and> q < of_nat (length (filter (\<lambda>r. \<not> r) (recentTrades s)))
                 / of_nat (length (recentTrades s))"
    and "recentTrades s \<noteq> [] \<Longrightarrow>
         q < of_nat (length (filter (\<lambda>r. \<not> r) (recentTrades s)))
               / of_nat (length (recentTrades s)) \<Longrightarrow>
         js_div (Fin (of_nat (length (filter (\<lambda>r. \<not> r) (recentTrades s)))))
                (Fin (of_nat (length (recentTrades s))))
           = Fin (fl (of_nat (length (filter (\<lambda>r. \<not> r) (recentTrades s)))
                      / of_nat (length (recentTrades s))))
         \<and> fl q \<le> fl (of_nat (length (filter (\<lambda>r. \<not> r) (recentTrades s)))
                        / of_nat (length (recentTrades s)))"
proof -
  let ?f = "length (filter (\<lambda>r. \<not> r) (recentTrades s))"
  let ?n = "length (recentTrades s)"
  let ?x = "(of_nat ?f / of_nat ?n :: rat)"
  have f1: "fl 1 = 1"
    by (simp add: fl_def fl_pos_eval [where e = "0"])
  have fin: "js_div (Fin (of_nat ?f)) (Fin (of_nat ?n)) = Fin (fl ?x)" if "recentTrades s \<noteq> []"
  proof -
    have n: "0 < ?n" using that by simp
    have "?f \<le> ?n" by simp
    then have "(of_nat ?f :: rat) \<le> of_nat ?n" by (simp only: of_nat_le_iff)
    then have "?x \<le> 1" using n by (simp add: divide_le_eq_1)
    then have "fl ?x \<le> fl 1" by (rule fl_mono)
    then have hi: "fl ?x \<le> 1" by (simp add: f1)
    have lo: "0 \<le> fl ?x" by (intro fl_nonneg) simp
    have "\<bar>fl ?x\<bar> < 2 ^ 1024"
    proof -
      have "\<bar>fl ?x\<bar> \<le> 1" using lo hi by simp
      also have "(1::rat) < 2 ^ 1024" by (rule one_less_power) simp_all
      finally show ?thesis .
    qed
    then show ?thesis using n by (simp add: js_div_def to_number_small)
  qed
  show "recentTrades s \<noteq> [] \<and> q < ?x" if t: "tripped (checkFailureRate s)"
  proof -
    from t have gt: "js_gt (js_div (Fin (of_nat ?f)) (Fin (of_nat ?n))) (Fin (fl q))"
      using assms by (simp add: checkFailureRate_tripped)
    have ne: "recentTrades s \<noteq> []"
    proof
      assume "recentTrades s = []"
      then show False
        using gt by (simp add: js_div_def js_gt_def sign_of_def signed_inf_def)
    qed
    from gt fin [OF ne] have "fl q < fl ?x" by (simp add: js_gt_def)
    then have "q < ?x" using fl_mono [of ?x q] by (cases "?x \<le> q") simp_all
    with ne show ?thesis by simp
  qed
  show "js_div (Fin (of_nat ?f)) (Fin (of_nat ?n)) = Fin (fl ?x) \<and> fl q \<le> fl ?x"
    if "recentTrades s \<noteq> []" and "q < ?x"
    using fin [OF that(1)] fl_mono [of q ?x] that(2) by simp
qed

text \<open>
  The multiplier computed on numbers is the binary64 value nearest to the exact
  \<open>1 + (tradeCount mod 5) / 5\<close>.
\<close>

lemma cooldownMultiplier_nearest:
  "cooldownMultiplier tradeCount = fl (1 + of_nat (tradeCount mod 5) / 5)"
proof -
  have c: "fl (1 / 5) = 3602879701896397 / 18014398509481984"
    by (simp add: fl_def fl_pos_eval [where e = "- 3"] round_even_numeral_divide)
  have one: "fl 1 = 1"
    by (simp add: fl_def fl_pos_eval [where e = "0"])
  have p1: "fl (3602879701896397 / 18014398509481984) = 3602879701896397 / 18014398509481984"
    by (simp add: fl_def fl_pos_eval [where e = "- 3"] round_even_numeral_divide)
  have m1: "fl (21617278211378381 / 18014398509481984) = 5404319552844595 / 4503599627370496"
    by (simp add: fl_def fl_pos_eval [where e = "0"] round_even_numeral_divide)
  have x1: "fl (6 / 5) = 5404319552844595 / 4503599627370496"
    by (simp add: fl_def fl_pos_eval [where e = "0"] round_even_numeral_divide)
  have p2: "fl (3602879701896397 / 9007199254740992) = 3602879701896397 / 9007199254740992"
    by (simp add: fl_def fl_pos_eval [where e = "- 2"] round_even_numeral_divide)
  have m2: "fl (12610078956637389 / 9007199254740992) = 3152519739159347 / 2251799813685248"
    by (simp add: fl_def fl_pos_eval [where e = "0"] round_even_numeral_divide)
  have x2: "fl (7 / 5) = 3152519739159347 / 2251799813685248"
    by (simp add: fl_def fl_pos_eval [where e = "0"] round_even_numeral_divide)
  have p3: "fl (10808639105689191 / 18014398509481984) = 1351079888211149 / 2251799813685248"
    by (simp add: fl_def fl_pos_eval [where e = "- 1"] round_even_numeral_divide)
  have m3: "fl (3602879701896397 / 2251799813685248) = 3602879701896397 / 2251799813685248"
    by (simp add: fl_def fl_pos_eval [where e = "0"] round_even_numeral_divide)
  have x3: "fl (8 / 5) = 3602879701896397 / 2251799813685248"
    by (simp add: fl_def fl_pos_eval [where e = "0"] round_even_numeral_divide)
  have p4: "fl (3602879701896397 / 4503599627370496) = 3602879701896397 / 4503599627370496"
    by (simp add: fl_def fl_pos_eval [where e = "- 1"] round_even_numeral_divide)
  have m4: "fl (8106479329266893 / 4503599627370496) = 8106479329266893 / 4503599627370496"
    by (simp add: fl_def fl_pos_eval [where e = "0"] round_even_numeral_divide)
  have x4: "fl (9 / 5) = 8106479329266893 / 4503599627370496"
    by (simp add: fl_def fl_pos_eval [where e = "0"] round_even_numeral_divide)
  have "tradeCount mod 5 < 5" by simp
  then consider "tradeCount mod 5 = 0" | "tradeCount mod 5 = 1" | "tradeCount mod 5 = 2"
    | "tradeCount mod 5 = 3" | "tradeCount mod 5 = 4"
    by linarith
  then show ?thesis
  proof cases
    case 1
    then show ?thesis by (simp add: cooldownMultiplier_def one fl_def)
  next
    case 2
    then show ?thesis by (simp add: cooldownMultiplier_def c p1 m1 x1)
  next
    case 3
    then show ?thesis by (simp add: cooldownMultiplier_def c p2 m2 x2)
  next
    case 4
    then show ?thesis by (simp add: cooldownMultiplier_def c p3 m3 x3)
  next
    case 5
    then show ?thesis by (simp add: cooldownMultiplier_def c p4 m4 x4)
  qed
qed

lemma fl_8_5: "fl (8 / 5) = 3602879701896397 / 2251799813685248"
  by (simp add: fl_def fl_pos_eval [where e = "0"] round_even_numeral_divide)

lemma fl_cooldown_1000: "fl (1000 * (3602879701896397 / 2251799813685248)) = 1600"
  by (simp add: fl_def fl_pos_eval [where e = "10"] round_even_numeral_divide)

text \<open>
  C9: for a base cooldown that \<^verbatim>\<open>getRandomNumberBetween\<close> draws from the configured range
  (a finite number between \<open>minWalletCooldownMs\<close> and \<open>maxWalletCooldownMs\<close>, drawn anew
  by every call), \<^verbatim>\<open>getWalletCooldown\<close> returns the floor of the product of the base and
  the multiplier \<open>1 + (tradeCount mod 5) * 0.2\<close>, both as numbers (the multiplier is the
  binary64 value nearest to \<open>1 + (tradeCount mod 5) / 5\<close>); with a trade count of 3 and
  both bounds at 1000 the result is exactly 1600.
\<close>

theorem C9_cooldown:
  assumes "getRandomNumberBetween_result (minWalletCooldownMs (wm_config s))
             (maxWalletCooldownMs (wm_config s)) baseCooldown"
  shows "(\<exists>b. baseCooldown = Fin b
             \<and> minWalletCooldownMs (wm_config s) \<le> b \<and> b \<le> maxWalletCooldownMs (wm_config s))
       \<and> getWalletCooldown baseCooldown s walletKey =
           js_floor (js_mul baseCooldown
             (Fin (fl (1 + of_nat ((case walletTradeCount s walletKey of None \<Rightarrow> 0 | Some c \<Rightarrow> c)
                                   mod 5) / 5))))
       \<and> (walletTradeCount s walletKey = Some 3
            \<and> minWalletCooldownMs (wm_config s) = 1000
            \<and> maxWalletCooldownMs (wm_config s) = 1000
          \<longrightarrow> getWalletCooldown baseCooldown s walletKey = Fin 1600)"
proof (intro conjI impI)
  from assms show "\<exists>b. baseCooldown = Fin b
             \<and> minWalletCooldownMs (wm_config s) \<le> b \<and> b \<le> maxWalletCooldownMs (wm_config s)"
    by (cases baseCooldown) (simp_all add: getRandomNumberBetween_result_def)
  show "getWalletCooldown baseCooldown s walletKey =
           js_floor (js_mul baseCooldown
             (Fin (fl (1 + of_nat ((case walletTradeCount s walletKey of None \<Rightarrow> 0 | Some c \<Rightarrow> c)
                                   mod 5) / 5))))"
    by (simp add: getWalletCooldown_def Let_def cooldownMultiplier_nearest)
  assume h: "walletTradeCount s walletKey = Some 3
            \<and> minWalletCooldownMs (wm_config s) = 1000
            \<and> maxWalletCooldownMs (wm_config s) = 1000"
  with assms have b: "baseCooldown = Fin 1000"
    by (cases baseCooldown) (simp_all add: getRandomNumberBetween_result_def)
  have m: "cooldownMultiplier 3 = 3602879701896397 / 2251799813685248"
    by (simp add: cooldownMultiplier_nearest fl_8_5)
  show "getWalletCooldown baseCooldown s walletKey = Fin 1600"
    using fl_cooldown_1000 h
    by (simp add: getWalletCooldown_def b m js_mul_def js_floor_def to_number_small)
qed

text \<open>The instance of the spec: an account used three times, both bounds at 1000 ms.\<close>

theorem C9_cooldown_witness:
  "getRandomNumberBetween_result 1000 1000 (Fin 1000)
   \<and> walletTradeCount
        (markWalletUsed 30 (markWalletUsed 20 (markWalletUsed 10
           (new_WalletManager example_config) ''w1'') ''w1'') ''w1'') ''w1'' = Some 3
   \<and> getWalletCooldown (Fin 1000)
        (markWalletUsed 30 (markWalletUsed 20 (markWalletUsed 10
           (new_WalletManager example_config) ''w1'') ''w1'') ''w1'') ''w1''
      = Fin 1600"
proof -
  let ?s = "markWalletUsed 30 (markWalletUsed 20 (markWalletUsed 10
              (new_WalletManager example_config) ''w1'') ''w1'') ''w1''"
  have c: "wm_config ?s = example_config"
    by (simp add: markWalletUsed_def new_WalletManager_def)
  have t: "walletTradeCount ?s ''w1'' = Some 3"
    by (simp add: markWalletUsed_def new_WalletManager_def)
  have b: "minWalletCooldownMs example_config = 1000" "maxWalletCooldownMs example_config = 1000"
    by (simp_all add: example_config_def)
  have r: "getRandomNumberBetween_result (minWalletCooldownMs (wm_config ?s))
             (maxWalletCooldownMs (wm_config ?s)) (Fin 1000)"
    unfolding c b by (simp add: getRandomNumberBetween_result_def)
  from C9_cooldown [OF r, of "''w1''"]
  have "walletTradeCount ?s ''w1'' = Some 3
          \<and> minWalletCooldownMs (wm_config ?s) = 1000
          \<and> maxWalletCooldownMs (wm_config ?s) = 1000
        \<longrightarrow> getWalletCooldown (Fin 1000) ?s ''w1'' = Fin 1600"
    by blast
  then have "getWalletCooldown (Fin 1000) ?s ''w1'' = Fin 1600"
    using t unfolding c b by blast
  moreover have "getRandomNumberBetween_result 1000 1000 (Fin 1000)"
    by (simp add: getRandomNumberBetween_result_def)
  ultimately show ?thesis using t by blast
qed

section \<open>Properties of the funding\<close>

lemma fundSingleWallet_already_funded:
  "pubkey w \<in> funded s \<Longrightarrow> fundSingleWallet K E s w = (s, [], Resolved)"
  by (simp add: fundSingleWallet_def)

lemma fundSingleWallet_state:
  "pubkey w \<notin> funded s \<Longrightarrow>
     fst (fundSingleWallet K E s w) = s\<lparr>funded := insert (pubkey w) (funded s)\<rparr>"
  by (simp add: fundSingleWallet_def Let_def split: option.splits)

lemma fundSingleWallet_funded:
  "funded (fst (fundSingleWallet K E s w)) = insert (pubkey w) (funded s)"
  by (cases "pubkey w \<in> funded s")
     (auto simp: fundSingleWallet_state fundSingleWallet_already_funded)

lemma fundLoop_no_FundedAdd: "FundedAdd a \<notin> set (fundLoop K E relayers to parts p remaining)"
proof (induction K E relayers to parts p remaining rule: fundLoop.induct)
  case (1 K E relayers to parts p remaining)
  show ?case
    by (subst fundLoop.simps) (use 1 in \<open>auto split: option.splits\<close>)
qed

lemma fundLoop_no_GetBalance: "GetBalance a \<notin> set (fundLoop K E relayers to parts p remaining)"
proof (induction K E relayers to parts p remaining rule: fundLoop.induct)
  case (1 K E relayers to parts p remaining)
  show ?case
    by (subst fundLoop.simps) (use 1 in \<open>auto split: option.splits\<close>)
qed

lemma balance_checks_fundLoop: "balance_checks (fundLoop K E relayers to parts p remaining) = 0"
  using fundLoop_no_GetBalance [of _ K E relayers to parts p remaining]
  by (auto simp: balance_checks_def filter_empty_conv split: event.splits)

lemma fundSingleWallet_trace:
  assumes "pubkey w \<notin> funded s"
  shows "\<exists>rest. fst (snd (fundSingleWallet K E s w)) = FundedAdd (pubkey w) # rest
           \<and> (\<forall>a. FundedAdd a \<notin> set rest) \<and> balance_checks rest \<le> 1"
  using assms fundLoop_no_FundedAdd [of _ K E]
  by (auto simp: fundSingleWallet_def Let_def balance_checks_def balance_checks_fundLoop [unfolded balance_checks_def]
           split: option.splits)


lemma example_call:
  "fundSingleWallet example_constants example_env (new_WalletManager example_config) example_wallet
     = ((new_WalletManager example_config)\<lparr>funded := {''w1''}\<rparr>,
        [FundedAdd ''w1'', GetBalance ''kp1'', LogWarn], Resolved)"
  by (simp add: fundSingleWallet_def new_WalletManager_def example_env_def example_wallet_def)

lemma example_second_call:
  "fundSingleWallet example_constants example_env
     ((new_WalletManager example_config)\<lparr>funded := {''w1''}\<rparr>) example_wallet
     = ((new_WalletManager example_config)\<lparr>funded := {''w1''}\<rparr>, [], Resolved)"
  by (simp add: fundSingleWallet_def example_wallet_def)

lemma example_wallet_unfunded:
  "pubkey example_wallet \<notin> funded (new_WalletManager example_config)"
  by (simp add: new_WalletManager_def)

text \<open>
  C3: a call for a record whose id is in \<open>funded\<close> is a no-op: no effect at all and the
  same state. Otherwise the only change of the state is the insertion of the id, and that
  insertion is the first effect of the call, before the single balance query and every
  transfer. A second call for the same id, with whatever collaborators, in the state the
  first one leaves, is therefore a no-op, and both calls together query the balance at
  most once.
\<close>

theorem C3_claim_before_work:
  "(pubkey w \<in> funded s \<longrightarrow> fundSingleWallet K E s w = (s, [], Resolved))
   \<and> (pubkey w \<notin> funded s \<longrightarrow>
        fst (fundSingleWallet K E s w) = s\<lparr>funded := insert (pubkey w) (funded s)\<rparr>
        \<and> (\<exists>rest. fst (snd (fundSingleWallet K E s w)) = FundedAdd (pubkey w) # rest
                 \<and> (\<forall>a. FundedAdd a \<notin> set rest) \<and> balance_checks rest \<le> 1))
   \<and> (pubkey w' = pubkey w \<longrightarrow>
        fundSingleWallet K E' (fst (fundSingleWallet K E s w)) w'
          = (fst (fundSingleWallet K E s w), [], Resolved)
        \<and> balance_checks (fst (snd (fundSingleWallet K E s w)))
          + balance_checks (fst (snd (fundSingleWallet K E' (fst (fundSingleWallet K E s w)) w')))
          \<le> 1)"
proof (intro conjI impI)
  assume "pubkey w \<in> funded s"
  then show "fundSingleWallet K E s w = (s, [], Resolved)"
    by (rule fundSingleWallet_already_funded)
next
  assume "pubkey w \<notin> funded s"
  then show "fst (fundSingleWallet K E s w) = s\<lparr>funded := insert (pubkey w) (funded s)\<rparr>"
    by (rule fundSingleWallet_state)
next
  assume "pubkey w \<notin> funded s"
  then show "\<exists>rest. fst (snd (fundSingleWallet K E s w)) = FundedAdd (pubkey w) # rest
                 \<and> (\<forall>a. FundedAdd a \<notin> set rest) \<and> balance_checks rest \<le> 1"
    by (rule fundSingleWallet_trace)
next
  assume eq: "pubkey w' = pubkey w"
  have "pubkey w' \<in> funded (fst (fundSingleWallet K E s w))"
    by (simp add: fundSingleWallet_funded eq)
  then show second: "fundSingleWallet K E' (fst (fundSingleWallet K E s w)) w'
          = (fst (fundSingleWallet K E s w), [], Resolved)"
    by (rule fundSingleWallet_already_funded)
  have first: "balance_checks (fst (snd (fundSingleWallet K E s w))) \<le> 1"
  proof (cases "pubkey w \<in> funded s")
    case True
    then show ?thesis by (simp add: fundSingleWallet_already_funded balance_checks_def)
  next
    case False
    from fundSingleWallet_trace [OF this, of K E] show ?thesis
      by (auto simp: balance_checks_def)
  qed
  show "balance_checks (fst (snd (fundSingleWallet K E s w)))
          + balance_checks (fst (snd (fundSingleWallet K E' (fst (fundSingleWallet K E s w)) w')))
          \<le> 1"
    using first by (simp add: second balance_checks_def)
qed

theorem C3_claim_before_work_witness:
  "pubkey example_wallet \<notin> funded (new_WalletManager example_config)
   \<and> fst (snd (fundSingleWallet example_constants example_env
                 (new_WalletManager example_config) example_wallet))
       = [FundedAdd ''w1'', GetBalance ''kp1'', LogWarn]
   \<and> fundSingleWallet example_constants example_env
        (fst (fundSingleWallet example_constants example_env
                (new_WalletManager example_config) example_wallet)) example_wallet
       = ((new_WalletManager example_config)\<lparr>funded := {''w1''}\<rparr>, [], Resolved)"
proof -
  let ?r = "fundSingleWallet example_constants example_env
              (new_WalletManager example_config) example_wallet"
  from C3_claim_before_work
    [of example_wallet "new_WalletManager example_config" example_constants example_env
        example_wallet example_env]
  have "fundSingleWallet example_constants example_env (fst ?r) example_wallet
          = (fst ?r, [], Resolved)"
    by blast
  then have "fundSingleWallet example_constants example_env (fst ?r) example_wallet
          = ((new_WalletManager example_config)\<lparr>funded := {''w1''}\<rparr>, [], Resolved)"
    by (simp add: example_call)
  moreover have "fst (snd ?r) = [FundedAdd ''w1'', GetBalance ''kp1'', LogWarn]"
    by (simp add: example_call)
  ultimately show ?thesis
    using example_wallet_unfunded by blast
qed

text \<open>
  C2 as stated is refuted: the balance query of the example collaborators throws, the
  attempt ends in the \<^verbatim>\<open>catch\<close> block, and the id of the wallet is in \<open>funded\<close>
  afterwards, so that the next call for it does nothing.
\<close>

theorem C2_marked_for_retry_counterexample:
  "pubkey example_wallet \<notin> funded (new_WalletManager example_config)
   \<and> LogWarn \<in> set (fst (snd (fundSingleWallet example_constants example_env
                                 (new_WalletManager example_config) example_wallet)))
   \<and> pubkey example_wallet
        \<in> funded (fst (fundSingleWallet example_constants example_env
                          (new_WalletManager example_config) example_wallet))
   \<and> fundSingleWallet example_constants example_env
        (fst (fundSingleWallet example_constants example_env
                (new_WalletManager example_config) example_wallet)) example_wallet
       = ((new_WalletManager example_config)\<lparr>funded := {''w1''}\<rparr>, [], Resolved)"
  using example_wallet_unfunded
  by (simp add: example_call example_second_call) (simp add: example_wallet_def)

text \<open>
  C2, amended: when a funding attempt fails (the \<^verbatim>\<open>catch\<close> block logs the failure), the
  id of the account is in \<open>funded\<close> after the call: the claim made before the attempt is
  not rolled back, and a later funding call for that id, whatever the collaborators
  answer, is a no-op. The account is not retried within the run.
\<close>

theorem C2_failed_attempt_stays_claimed:
  "LogWarn \<in> set (fst (snd (fundSingleWallet K E s w))) \<longrightarrow>
     pubkey w \<in> funded (fst (fundSingleWallet K E s w))
     \<and> fundSingleWallet K E' (fst (fundSingleWallet K E s w)) w
         = (fst (fundSingleWallet K E s w), [], Resolved)"
  by (simp add: fundSingleWallet_funded fundSingleWallet_already_funded)

theorem C2_failed_attempt_stays_claimed_witness:
  "LogWarn \<in> set (fst (snd (fundSingleWallet example_constants example_env
                               (new_WalletManager example_config) example_wallet)))
   \<and> ''w1'' \<in> funded (fst (fundSingleWallet example_constants example_env
                              (new_WalletManager example_config) example_wallet))"
  using C2_failed_attempt_stays_claimed
    [of example_constants example_env "new_WalletManager example_config" example_wallet example_env]
  by (simp add: example_call)


lemma calculateFundingPart_bounds:
  assumes "0 < remainingParts" and "int (MIN_SOL_BUFFER_LAMPORTS_BN K) < remaining"
  shows "\<exists>part. calculateFundingPart K r remaining remainingParts = Some part
           \<and> int (MIN_SOL_BUFFER_LAMPORTS_BN K) \<le> part \<and> part \<le> remaining"
  using assms by (simp add: calculateFundingPart_def Let_def)

text \<open>
  The loop: from a remaining shortfall that is not negative, every transfer submitted is
  at least the minimum buffer, and the transfers together are at most the shortfall.
\<close>

lemma fundLoop_amounts:
  "0 \<le> remaining \<Longrightarrow>
     (\<forall>a \<in> set (amounts (fundLoop K E relayers to parts p remaining)).
         int (MIN_SOL_BUFFER_LAMPORTS_BN K) \<le> a \<and> a \<le> remaining)
     \<and> sum_list (amounts (fundLoop K E relayers to parts p remaining)) \<le> remaining"
proof (induction K E relayers to parts p remaining rule: fundLoop.induct)
  case (1 K E relayers to parts p remaining)
  let ?m = "int (MIN_SOL_BUFFER_LAMPORTS_BN K)"
  show ?case
  proof (cases "p < parts \<and> ?m < remaining")
    case False
    then show ?thesis using "1.prems" by (subst (1 2) fundLoop.simps) auto
  next
    case True
    then obtain part where
      part: "calculateFundingPart K (Math_random E (1 + 3 * p)) remaining (parts - p) = Some part"
      and lo: "?m \<le> part" and hi: "part \<le> remaining"
      using calculateFundingPart_bounds [of "parts - p" K remaining] by auto
    show ?thesis
    proof (cases "nth_opt relayers (random_index (Math_random E (2 + 3 * p)) (length relayers))")
      case None
      then show ?thesis using True part "1.prems" by (subst (1 2) fundLoop.simps) simp
    next
      case (Some relayer)
      show ?thesis
      proof (cases "sendTransaction E p \<and> confirmTransaction E p \<and> \<not> 2 ^ 53 \<le> \<bar>part\<bar>")
        case False
        then show ?thesis
          using True part Some lo hi by (subst (1 2) fundLoop.simps) auto
      next
        case ok: True
        have "0 \<le> remaining - part" using hi by simp
        from "1.IH" [OF True part Some _ _ _ this] ok
        have IH: "(\<forall>a \<in> set (amounts (fundLoop K E relayers to parts (Suc p) (remaining - part))).
                      ?m \<le> a \<and> a \<le> remaining - part)
                \<and> sum_list (amounts (fundLoop K E relayers to parts (Suc p) (remaining - part)))
                    \<le> remaining - part"
          by simp
        have pos: "0 \<le> part" using lo by simp
        show ?thesis
          using True part Some ok lo hi IH pos
          by (subst (1 2) fundLoop.simps) (auto simp: order.trans [OF _ diff_left_mono])
      qed
    qed
  qed
qed

lemma threshold_le:
  "0 \<le> fundAmount \<Longrightarrow> (fundAmount * 8) sdiv 10 \<le> (fundAmount :: int)"
  "fundAmount < 0 \<Longrightarrow> (fundAmount * 8) sdiv 10 \<le> (0 :: int)"
proof -
  show "0 \<le> fundAmount \<Longrightarrow> (fundAmount * 8) sdiv 10 \<le> fundAmount"
  proof -
    assume "0 \<le> fundAmount"
    then have "(fundAmount * 8) div 10 \<le> fundAmount" by linarith
    then show ?thesis using \<open>0 \<le> fundAmount\<close>
      by (simp add: signed_divide_int_def sgn_if)
  qed
  show "fundAmount < 0 \<Longrightarrow> (fundAmount * 8) sdiv 10 \<le> 0"
    by (simp add: signed_divide_int_def sgn_if div_int_pos_iff)
qed

lemma fundSingleWallet_total_sent:
  assumes "Keypair_fromSecretKey E (privateKey w) = Some kp" and "getBalance E kp = Some balance"
  shows "sum_list (amounts (fst (snd (fundSingleWallet K E s w))))
           \<le> max 0 (fundAmountLamports (wm_config s) - int balance)
       \<and> (\<forall>a \<in> set (amounts (fst (snd (fundSingleWallet K E s w)))).
             int (MIN_SOL_BUFFER_LAMPORTS_BN K) \<le> a)"
proof (cases "pubkey w \<in> funded s \<or>
              (fundAmountLamports (wm_config s) * 8) sdiv 10 \<le> int balance")
  case True
  then show ?thesis using assms by (auto simp: fundSingleWallet_def Let_def)
next
  case False
  let ?f = "fundAmountLamports (wm_config s)"
  have "int balance < (?f * 8) sdiv 10" using False by simp
  then have "0 \<le> ?f - int balance"
    using threshold_le [of ?f] by (cases "0 \<le> ?f") auto
  from fundLoop_amounts [OF this, of K E "relayerKeypairs s" kp
       "nat \<lfloor>fl (Math_random E 0 * 4)\<rfloor> + 1" 0]
  show ?thesis using False assms by (auto simp: fundSingleWallet_def Let_def)
qed


text \<open>The values of the concrete run: every random value is \<open>1/2\<close>.\<close>

lemma funding_factor_half: "funding_factor (1/2) = 1000"
proof -
  have c06: "fl (3 / 5) = 5404319552844595 / 9007199254740992"
    by (simp add: fl_def fl_pos_eval [where e = "- 1"] round_even_numeral_divide)
  have c08: "fl (4 / 5) = 3602879701896397 / 4503599627370496"
    by (simp add: fl_def fl_pos_eval [where e = "- 1"] round_even_numeral_divide)
  have a: "fl (3602879701896397 / 9007199254740992) = 3602879701896397 / 9007199254740992"
    by (simp add: fl_def fl_pos_eval [where e = "- 2"] round_even_numeral_divide)
  have b: "fl 1 = 1"
    by (simp add: fl_def fl_pos_eval [where e = "0"])
  have c: "fl 1000 = 1000"
    by (simp add: fl_def fl_pos_eval [where e = "9"])
  show ?thesis
    by (simp add: funding_factor_def c06 c08 a b c)
qed

lemma fl_2: "fl 2 = 2"
  by (simp add: fl_def fl_pos_eval [where e = "1"])

lemma fl_half: "fl (1/2) = 1/2"
  by (simp add: fl_def fl_pos_eval [where e = "- 1"])

lemma example_parts:
  "calculateFundingPart example_constants (1/2) 1000 3 = Some 333"
  "calculateFundingPart example_constants (1/2) 667 2 = Some 333"
  "calculateFundingPart example_constants (1/2) 334 (Suc 0) = Some 334"
  by (simp_all add: calculateFundingPart_def funding_factor_half example_constants_def
        signed_divide_int_def)

lemma example_funding_run:
  "fundSingleWallet example_constants (example_env\<lparr>getBalance := \<lambda>a. Some 0\<rparr>)
     ((new_WalletManager example_config)\<lparr>relayerKeypairs := [''r1'']\<rparr>) example_wallet
   = ((new_WalletManager example_config)\<lparr>relayerKeypairs := [''r1''], funded := {''w1''}\<rparr>,
      [FundedAdd ''w1'', GetBalance ''kp1'',
       SendTransaction ''r1'' ''kp1'' 333, ConfirmTransaction, LogInfo,
       SendTransaction ''r1'' ''kp1'' 333, ConfirmTransaction, LogInfo,
       SendTransaction ''r1'' ''kp1'' 334, ConfirmTransaction, LogInfo],
      Resolved)"
proof -
  let ?E = "example_env\<lparr>getBalance := \<lambda>a. Some 0\<rparr>"
  have minbuf: "MIN_SOL_BUFFER_LAMPORTS_BN example_constants = 10"
    by (simp add: example_constants_def)
  have E: "Math_random example_env n = 1/2" "sendTransaction example_env n"
    "confirmTransaction example_env n" "Keypair_fromSecretKey example_env k = Some ''kp1''"
    for n k
    by (simp_all add: example_env_def)
  have pick: "nth_opt [''r1''] (random_index (1/2) (Suc 0)) = Some ''r1''"
    by (simp add: random_index_def fl_half nth_opt_def)
  have l3: "fundLoop example_constants ?E [''r1''] ''kp1'' 3 (Suc (Suc (Suc 0))) 0 = []"
    by (subst fundLoop.simps) simp
  have l2: "fundLoop example_constants ?E [''r1''] ''kp1'' 3 (Suc (Suc 0)) 334
              = [SendTransaction ''r1'' ''kp1'' 334, ConfirmTransaction, LogInfo]"
    by (subst fundLoop.simps) (simp add: E example_parts l3 pick minbuf)
  have l1: "fundLoop example_constants ?E [''r1''] ''kp1'' 3 (Suc 0) 667
              = [SendTransaction ''r1'' ''kp1'' 333, ConfirmTransaction, LogInfo,
                 SendTransaction ''r1'' ''kp1'' 334, ConfirmTransaction, LogInfo]"
    by (subst fundLoop.simps) (simp add: E example_parts l2 pick minbuf)
  have l0: "fundLoop example_constants ?E [''r1''] ''kp1'' 3 0 1000
              = [SendTransaction ''r1'' ''kp1'' 333, ConfirmTransaction, LogInfo,
                 SendTransaction ''r1'' ''kp1'' 333, ConfirmTransaction, LogInfo,
                 SendTransaction ''r1'' ''kp1'' 334, ConfirmTransaction, LogInfo]"
    by (subst fundLoop.simps) (simp add: E example_parts l1 pick minbuf)
  have s: "pubkey example_wallet = ''w1''"
    "funded ((new_WalletManager example_config)\<lparr>relayerKeypairs := [''r1'']\<rparr>) = {}"
    "fundAmountLamports (wm_config (new_WalletManager example_config)) = 1000"
    "relayerKeypairs ((new_WalletManager example_config)\<lparr>relayerKeypairs := [''r1'']\<rparr>) = [''r1'']"
    by (simp_all add: example_wallet_def new_WalletManager_def example_config_def)
  show ?thesis
    by (simp add: fundSingleWallet_def Let_def E s l0 fl_2 signed_divide_int_def)
qed

text \<open>
  C8: whenever the loop guard holds (a part is left to send and the remaining shortfall is
  strictly greater than the minimum buffer), \<^verbatim>\<open>calculateFundingPart\<close> returns a part that
  is at least the minimum buffer and at most the remaining shortfall, for every random
  value; over a whole funding attempt every transfer submitted is at least the minimum
  buffer, and the transfers together never exceed the initial shortfall (the funding
  target minus the balance found). The arithmetic is on integers.
\<close>

theorem C8_funding_parts:
  "(0 < remainingParts \<and> int (MIN_SOL_BUFFER_LAMPORTS_BN K) < remaining \<longrightarrow>
      (\<exists>part. calculateFundingPart K r remaining remainingParts = Some part
         \<and> int (MIN_SOL_BUFFER_LAMPORTS_BN K) \<le> part \<and> part \<le> remaining))
   \<and> (0 \<le> remaining \<longrightarrow>
        (\<forall>a \<in> set (amounts (fundLoop K E relayers to parts p remaining)).
            int (MIN_SOL_BUFFER_LAMPORTS_BN K) \<le> a \<and> a \<le> remaining)
        \<and> sum_list (amounts (fundLoop K E relayers to parts p remaining)) \<le> remaining)
   \<and> (Keypair_fromSecretKey E (privateKey w) = Some kp \<and> getBalance E kp = Some balance \<longrightarrow>
        sum_list (amounts (fst (snd (fundSingleWallet K E s w))))
          \<le> max 0 (fundAmountLamports (wm_config s) - int balance)
        \<and> (\<forall>a \<in> set (amounts (fst (snd (fundSingleWallet K E s w)))).
              int (MIN_SOL_BUFFER_LAMPORTS_BN K) \<le> a))"
  using calculateFundingPart_bounds [of remainingParts K remaining r]
    fundLoop_amounts [of remaining K E relayers to parts p]
    fundSingleWallet_total_sent [of E w kp balance K s]
  by blast

text \<open>
  The instance of the spec, a shortfall of 1000 and a minimum buffer of 10: with every
  random value at \<open>1/2\<close> the attempt sends the three parts 333, 333 and 334.
\<close>

theorem C8_funding_parts_witness:
  "0 < (3::nat) \<and> int (MIN_SOL_BUFFER_LAMPORTS_BN example_constants) < 1000
   \<and> calculateFundingPart example_constants (1/2) 1000 3 = Some 333
   \<and> amounts (fst (snd (fundSingleWallet example_constants
                          (example_env\<lparr>getBalance := \<lambda>a. Some 0\<rparr>)
                          ((new_WalletManager example_config)\<lparr>relayerKeypairs := [''r1'']\<rparr>)
                          example_wallet)))
       = [333, 333, 334]
   \<and> sum_list [333, 333, 334 :: int] \<le> 1000"
proof -
  have m: "int (MIN_SOL_BUFFER_LAMPORTS_BN example_constants) < 1000"
    by (simp add: example_constants_def)
  with C8_funding_parts [of 3 example_constants 1000 "1/2" example_env "[]" "[]" 0 0
      example_wallet "[]" 0 "new_WalletManager example_config"]
  obtain part where "calculateFundingPart example_constants (1/2) 1000 3 = Some part"
    by auto
  then have "calculateFundingPart example_constants (1/2) 1000 3 = Some 333"
    by (simp add: example_parts)
  moreover have "amounts (fst (snd (fundSingleWallet example_constants
                          (example_env\<lparr>getBalance := \<lambda>a. Some 0\<rparr>)
                          ((new_WalletManager example_config)\<lparr>relayerKeypairs := [''r1'']\<rparr>)
                          example_wallet))) = [333, 333, 334]"
    by (simp add: example_funding_run)
  ultimately show ?thesis using m by simp
qed

section \<open>Properties of loading and generating\<close>
















section \<open>Properties of the shuffle\<close>

text \<open>
  The loop touches only the array at \<open>shuffled\<close>, and only by swaps within its bounds.
\<close>

lemma shuffleLoop_inv:
  assumes "\<forall>k. is_random (Math_random E k)"
    and "shuffled < length h" and "i < length (h ! shuffled) \<or> i = 0"
  shows "length (shuffleLoop E k shuffled i h) = length h
       \<and> (\<forall>a. a \<noteq> shuffled \<longrightarrow> shuffleLoop E k shuffled i h ! a = h ! a)
       \<and> mset (shuffleLoop E k shuffled i h ! shuffled) = mset (h ! shuffled)"
  using assms
proof (induction E k shuffled i h rule: shuffleLoop.induct)
  case (1 E k shuffled i h)
  show ?case
  proof (cases "0 < i")
    case False
    then show ?thesis by (subst (1 2 3) shuffleLoop.simps) simp
  next
    case True
    let ?j = "random_index (Math_random E k) (i + 1)"
    let ?a = "h ! shuffled"
    let ?h = "h[shuffled := ?a[i := ?a ! ?j, ?j := ?a ! i]]"
    have i: "i < length ?a" using True "1.prems"(3) by simp
    have "is_random (Math_random E k)" using "1.prems"(1) by simp
    then have "?j < i + 1" by (rule random_index_less) simp
    then have j: "?j < length ?a" using i by simp
    have sw: "mset (?a[i := ?a ! ?j, ?j := ?a ! i]) = mset ?a"
      using mset_swap [OF j i] .
    have len: "shuffled < length ?h" using "1.prems"(2) by simp
    have at: "?h ! shuffled = ?a[i := ?a ! ?j, ?j := ?a ! i]"
      using "1.prems"(2) by simp
    have "length (?h ! shuffled) = length ?a" unfolding at by simp
    then have bound: "i - 1 < length (?h ! shuffled) \<or> i - 1 = 0"
      using i by linarith
    note IH = "1.IH" [OF True refl refl "1.prems"(1) len bound]
    have step: "shuffleLoop E k shuffled i h = shuffleLoop E (k + 1) shuffled (i - 1) ?h"
      using True by (subst shuffleLoop.simps) (simp add: Let_def)
    show ?thesis
      unfolding step using IH sw "1.prems"(2) by (simp add: at)
  qed
qed

text \<open>
  C10: for random values that \<^verbatim>\<open>Math.random()\<close> can return and an array of the store,
  \<^verbatim>\<open>shuffleArray\<close> returns a new address, which holds a permutation of the input array
  (the same elements with the same multiplicities, hence the same length), and leaves
  every array of the store before the call, the input among them, as it was.
\<close>

theorem C10_shuffle_permutation:
  assumes "\<forall>k. is_random (Math_random E k)" and "array < length h"
  shows "case shuffleArray E h array of (h', shuffled) \<Rightarrow>
           shuffled = length h \<and> shuffled \<noteq> array \<and> length h' = Suc (length h)
           \<and> (\<forall>a < length h. h' ! a = h ! a)
           \<and> mset (h' ! shuffled) = mset (h ! array)
           \<and> length (h' ! shuffled) = length (h ! array)"
proof -
  let ?h1 = "h @ [h ! array]"
  let ?n = "length h"
  have at: "?h1 ! ?n = h ! array" by simp
  have b: "length (?h1 ! ?n) - 1 < length (?h1 ! ?n) \<or> length (?h1 ! ?n) - 1 = 0"
    by (cases "length (?h1 ! ?n)") simp_all
  have n: "?n < length ?h1" by simp
  from shuffleLoop_inv [OF assms(1) n b, of 0]
  have len: "length (shuffleLoop E 0 ?n (length (?h1 ! ?n) - 1) ?h1) = length ?h1"
    and others: "\<And>a. a \<noteq> ?n \<Longrightarrow> shuffleLoop E 0 ?n (length (?h1 ! ?n) - 1) ?h1 ! a = ?h1 ! a"
    and perm: "mset (shuffleLoop E 0 ?n (length (?h1 ! ?n) - 1) ?h1 ! ?n) = mset (?h1 ! ?n)"
    by blast+
  have old: "shuffleLoop E 0 ?n (length (?h1 ! ?n) - 1) ?h1 ! a = h ! a" if "a < ?n" for a
    using others [of a] that by (simp add: nth_append)
  have size: "length (shuffleLoop E 0 ?n (length (?h1 ! ?n) - 1) ?h1 ! ?n) = length (h ! array)"
    using perm by (metis at size_mset)
  show ?thesis
    using assms(2) len old perm size by (simp add: shuffleArray_def Let_def)
qed


lemma example_env_random: "is_random (Math_random example_env k)"
  by (simp add: example_env_def is_random_def fl_half)

lemma example_shuffle:
  "shuffleArray example_env [[10, 20, 30 :: nat]] 0 = ([[10, 20, 30], [10, 30, 20]], 1)"
proof -
  have r: "Math_random example_env k = 1/2" for k by (simp add: example_env_def)
  have f32: "fl (3/2) = 3/2"
    by (simp add: fl_def fl_pos_eval [where e = "0"])
  have f1: "fl 1 = 1"
    by (simp add: fl_def fl_pos_eval [where e = "0"])
  have j2: "random_index (1/2) (Suc (Suc (Suc 0))) = 1"
    by (simp add: random_index_def f32 floor_rat_numeral_divide)
  have j1: "random_index (1/2) (Suc (Suc 0)) = 1"
    by (simp add: random_index_def f1)
  have l0: "shuffleLoop example_env k (Suc 0) 0 h = h" for k and h :: "nat store"
    by (subst shuffleLoop.simps) simp
  have l1: "shuffleLoop example_env (Suc 0) (Suc 0) (Suc 0) [[10, 20, 30], [10, 30, 20 :: nat]]
              = [[10, 20, 30], [10, 30, 20]]"
    by (subst shuffleLoop.simps) (simp add: r j1 l0)
  have l2: "shuffleLoop example_env 0 (Suc 0) (Suc (Suc 0)) [[10, 20, 30], [10, 20, 30 :: nat]]
              = [[10, 20, 30], [10, 30, 20]]"
    by (subst shuffleLoop.simps) (simp add: r j2 l1)
  show ?thesis
    by (simp add: shuffleArray_def l2)
qed

theorem C10_shuffle_permutation_witness:
  "(\<forall>k. is_random (Math_random example_env k)) \<and> 0 < length [[10, 20, 30 :: nat]]
   \<and> shuffleArray example_env [[10, 20, 30 :: nat]] 0 = ([[10, 20, 30], [10, 30, 20]], 1)
   \<and> mset [10, 30, 20 :: nat] = mset [10, 20, 30]"
proof -
  have a: "\<forall>k. is_random (Math_random example_env k)"
    by (simp add: example_env_random)
  have b: "0 < length [[10, 20, 30 :: nat]]" by simp
  from C10_shuffle_permutation [OF a b]
  have "mset [10, 30, 20 :: nat] = mset [10, 20, 30]"
    by (simp add: example_shuffle)
  with a b example_shuffle show ?thesis by blast
qed

section \<open>Properties of the personalities\<close>

lemma assign_fold_other:
  "key \<notin> set ks \<Longrightarrow>
     fold (\<lambda>(k, key) m. m(key \<mapsto> f k)) (zip [i..<i + length ks] ks) m key = m key"
proof (induction ks arbitrary: i m)
  case Nil
  then show ?case by simp
next
  case (Cons a ks)
  define F where "F = (\<lambda>(k, key) (m :: 'a \<rightharpoonup> 'b). m(key \<mapsto> f k))"
  have z: "zip [i..<i + length (a # ks)] (a # ks) = (i, a) # zip [Suc i..<Suc i + length ks] ks"
    by (subst upt_rec) simp
  have "fold F (zip [i..<i + length (a # ks)] (a # ks)) m key
          = fold F (zip [Suc i..<Suc i + length ks] ks) (m(a \<mapsto> f i)) key"
    unfolding z by (simp add: F_def)
  also have "\<dots> = (m(a \<mapsto> f i)) key"
  proof -
    have "key \<notin> set ks" using Cons.prems by simp
    from Cons.IH [OF this, of "Suc i" "m(a \<mapsto> f i)", folded F_def] show ?thesis .
  qed
  also have "\<dots> = m key" using Cons.prems by simp
  finally show ?case by (simp only: F_def)
qed

lemma assign_fold_nth:
  "distinct ks \<Longrightarrow> j < length ks \<Longrightarrow>
     fold (\<lambda>(k, key) m. m(key \<mapsto> f k)) (zip [i..<i + length ks] ks) m (ks ! j) = Some (f (i + j))"
proof (induction ks arbitrary: i j m)
  case Nil
  then show ?case by simp
next
  case (Cons a ks)
  define F where "F = (\<lambda>(k, key) (m :: 'a \<rightharpoonup> 'b). m(key \<mapsto> f k))"
  have z: "zip [i..<i + length (a # ks)] (a # ks) = (i, a) # zip [Suc i..<Suc i + length ks] ks"
    by (subst upt_rec) simp
  have step: "fold F (zip [i..<i + length (a # ks)] (a # ks)) m
          = fold F (zip [Suc i..<Suc i + length ks] ks) (m(a \<mapsto> f i))"
    unfolding z by (simp add: F_def)
  have "fold F (zip [i..<i + length (a # ks)] (a # ks)) m ((a # ks) ! j) = Some (f (i + j))"
  proof (cases j)
    case 0
    have "a \<notin> set ks" using Cons.prems(1) by simp
    from assign_fold_other [OF this, of f "Suc i" "m(a \<mapsto> f i)", folded F_def]
    have "fold F (zip [Suc i..<Suc i + length ks] ks) (m(a \<mapsto> f i)) a = Some (f i)"
      by (simp only: fun_upd_same)
    then show ?thesis unfolding step using 0 by simp
  next
    case (Suc j')
    then have "j' < length ks" and "distinct ks" using Cons.prems by simp_all
    from Cons.IH [OF this(2,1), of "Suc i" "m(a \<mapsto> f i)", folded F_def]
    have "fold F (zip [Suc i..<Suc i + length ks] ks) (m(a \<mapsto> f i)) (ks ! j') = Some (f (i + j))"
      using Suc by (simp only: add_Suc add_Suc_right)
    then show ?thesis unfolding step using Suc by simp
  qed
  then show ?case by (simp only: F_def)
qed

text \<open>
  C6 as stated is refuted: a first call, whose random value is 0, gives the account
  \<open>w1\<close> the tag \<open>flipper\<close>; a second call, whose random value is \<open>1/2\<close>, replaces it by
  \<open>hodler\<close>.
\<close>

theorem C6_idempotent_counterexample:
  "walletPersonalities
      (assignPersonalities example_constants (example_env\<lparr>Math_random := \<lambda>k. 0\<rparr>)
         ((new_WalletManager example_config)\<lparr>allPubkeys := [''w1'']\<rparr>)) ''w1''
     = Some (Some ''flipper'')
   \<and> walletPersonalities
      (assignPersonalities example_constants example_env
        (assignPersonalities example_constants (example_env\<lparr>Math_random := \<lambda>k. 0\<rparr>)
           ((new_WalletManager example_config)\<lparr>allPubkeys := [''w1'']\<rparr>))) ''w1''
     = Some (Some ''hodler'')
   \<and> getPersonality
      (assignPersonalities example_constants (example_env\<lparr>Math_random := \<lambda>k. 0\<rparr>)
         ((new_WalletManager example_config)\<lparr>allPubkeys := [''w1'']\<rparr>)) ''w1''
     = ''flipper''
   \<and> getPersonality
      (assignPersonalities example_constants example_env
        (assignPersonalities example_constants (example_env\<lparr>Math_random := \<lambda>k. 0\<rparr>)
           ((new_WalletManager example_config)\<lparr>allPubkeys := [''w1'']\<rparr>))) ''w1''
     = ''hodler''"
proof -
  have f1: "fl 1 = 1"
    by (simp add: fl_def fl_pos_eval [where e = "0"])
  have P: "PERSONALITIES example_constants = [''flipper'', ''hodler'']"
    by (simp add: example_constants_def)
  have i0: "random_index 0 (Suc (Suc 0)) = 0" by (simp add: random_index_def fl_def)
  have i1: "random_index (1/2) (Suc (Suc 0)) = 1" by (simp add: random_index_def f1)
  have r: "Math_random example_env k = 1/2" for k by (simp add: example_env_def)
  show ?thesis
    by (simp add: assignPersonalities_def getPersonality_def P i0 i1 r nth_opt_def
          new_WalletManager_def)
qed

text \<open>
  C6, amended: \<^verbatim>\<open>assignPersonalities\<close> gives every id of \<open>allPubkeys\<close>, whether or not it
  already holds a tag, the entry of the fixed list of personalities selected by a fresh
  random value (for random values that \<^verbatim>\<open>Math.random()\<close> can return and a list that is
  not empty, a tag of the list); an existing tag is overwritten, so the operation is not
  idempotent. The entries of all other ids are unchanged.
\<close>

theorem C6_assign_overwrites:
  "(distinct (allPubkeys s) \<longrightarrow>
      (\<forall>j < length (allPubkeys s).
          walletPersonalities (assignPersonalities K E s) (allPubkeys s ! j)
            = Some (nth_opt (PERSONALITIES K)
                      (random_index (Math_random E j) (length (PERSONALITIES K))))))
   \<and> (\<forall>key. key \<notin> set (allPubkeys s) \<longrightarrow>
          walletPersonalities (assignPersonalities K E s) key = walletPersonalities s key)
   \<and> ((\<forall>k. is_random (Math_random E k)) \<and> PERSONALITIES K \<noteq> [] \<and> distinct (allPubkeys s) \<longrightarrow>
        (\<forall>key \<in> set (allPubkeys s). \<exists>p \<in> set (PERSONALITIES K).
            walletPersonalities (assignPersonalities K E s) key = Some (Some p)))"
proof (intro conjI impI allI ballI)
  fix j assume d: "distinct (allPubkeys s)" and j: "j < length (allPubkeys s)"
  from assign_fold_nth [OF d j, of _ 0] 
  show "walletPersonalities (assignPersonalities K E s) (allPubkeys s ! j)
            = Some (nth_opt (PERSONALITIES K)
                      (random_index (Math_random E j) (length (PERSONALITIES K))))"
    by (simp add: assignPersonalities_def)
next
  fix key assume "key \<notin> set (allPubkeys s)"
  from assign_fold_other [OF this, of _ 0]
  show "walletPersonalities (assignPersonalities K E s) key = walletPersonalities s key"
    by (simp add: assignPersonalities_def)
next
  fix key
  assume h: "(\<forall>k. is_random (Math_random E k)) \<and> PERSONALITIES K \<noteq> [] \<and> distinct (allPubkeys s)"
    and key: "key \<in> set (allPubkeys s)"
  from key obtain j where j: "j < length (allPubkeys s)" and kj: "key = allPubkeys s ! j"
    by (auto simp: in_set_conv_nth)
  let ?i = "random_index (Math_random E j) (length (PERSONALITIES K))"
  have i: "?i < length (PERSONALITIES K)"
    using h by (intro random_index_less) simp_all
  have "walletPersonalities (assignPersonalities K E s) key = Some (nth_opt (PERSONALITIES K) ?i)"
    using assign_fold_nth [of "allPubkeys s" j _ 0] h j kj by (simp add: assignPersonalities_def)
  then have "walletPersonalities (assignPersonalities K E s) key = Some (Some (PERSONALITIES K ! ?i))"
    using i by (simp add: nth_opt_def)
  moreover have "PERSONALITIES K ! ?i \<in> set (PERSONALITIES K)" using i by simp
  ultimately show "\<exists>p \<in> set (PERSONALITIES K).
            walletPersonalities (assignPersonalities K E s) key = Some (Some p)"
    by blast
qed


theorem C6_assign_overwrites_witness:
  "distinct [''w1''] \<and> (\<forall>k. is_random (Math_random example_env k))
   \<and> PERSONALITIES example_constants \<noteq> []
   \<and> walletPersonalities
        (assignPersonalities example_constants example_env
           ((new_WalletManager example_config)
              \<lparr>allPubkeys := [''w1''], walletPersonalities := [''w1'' \<mapsto> Some ''flipper'']\<rparr>))
        ''w1''
      = Some (Some ''hodler'')"
proof -
  let ?s = "(new_WalletManager example_config)
              \<lparr>allPubkeys := [''w1''], walletPersonalities := [''w1'' \<mapsto> Some ''flipper'']\<rparr>"
  have f1: "fl 1 = 1"
    by (simp add: fl_def fl_pos_eval [where e = "0"])
  have P: "PERSONALITIES example_constants = [''flipper'', ''hodler'']"
    by (simp add: example_constants_def)
  have r: "Math_random example_env k = 1/2" for k by (simp add: example_env_def)
  have i1: "random_index (1/2) (Suc (Suc 0)) = 1" by (simp add: random_index_def f1)
  have a: "allPubkeys ?s = [''w1'']" by simp
  have d: "distinct (allPubkeys ?s)" by simp
  from C6_assign_overwrites [of ?s example_constants example_env] d
  have "walletPersonalities (assignPersonalities example_constants example_env ?s) (allPubkeys ?s ! 0)
          = Some (nth_opt (PERSONALITIES example_constants)
                    (random_index (Math_random example_env 0)
                       (length (PERSONALITIES example_constants))))"
    by (simp only: a) simp
  then have "walletPersonalities (assignPersonalities example_constants example_env ?s) ''w1''
               = Some (Some ''hodler'')"
    by (simp add: P r i1 nth_opt_def)
  moreover have "\<forall>k. is_random (Math_random example_env k)"
    by (simp add: example_env_random)
  moreover have "PERSONALITIES example_constants \<noteq> []" by (simp add: P)
  ultimately show ?thesis by simp
qed


end
